theory Spec2Isabelle
  imports Complex_Main "HOL-Library.Word"
begin

unbundle bit_operations_syntax

section \<open>Machine integers and addresses\<close>

type_synonym u8 = "8 word"
type_synonym u16 = "16 word"
type_synonym u32 = "32 word"

text \<open>
  Modelled from the spec: the \<open>Address\<close> class lives in the CPU core's headers, which
  are not part of the sources at hand.  The spec gives it as the pair
  \<open>(bank: u8, offset: u16)\<close> with flat form \<open>bank<<16 | offset\<close>; every device
  below rebuilds the flat address with exactly that expression.
\<close>

record address =
  getBank :: u8
  getOffset :: u16

definition Address :: "u8 \<Rightarrow> u16 \<Rightarrow> address" where
  "Address b off = \<lparr> getBank = b, getOffset = off \<rparr>"

definition flatAddr :: "address \<Rightarrow> u32" where
  "flatAddr a = push_bit 16 (ucast (getBank a)) OR ucast (getOffset a)"

section \<open>Cartridge (cartridge.cpp)\<close>

text \<open>The header's title and reserved bytes take no part in any address decoding or
  reset decision and are left out of the record.\<close>

record ROMHeader =
  mainCPU_entryPoint :: u32
  graphicsCPU_entryPoint :: u32
  soundCPU_entryPoint :: u32
  paletteData :: u32
  tileData :: u32
  audioData :: u32
  version :: u8

record cartridge =
  rom :: "u8 list"
  saveRAM :: "u8 list"
  currentBank :: u8
  header :: ROMHeader

definition ROM_WINDOW_START :: u32 where "ROM_WINDOW_START = 0xC00000"
definition ROM_WINDOW_END :: u32 where "ROM_WINDOW_END = 0xFFFFFF"
definition BANK_REGISTER :: u32 where "BANK_REGISTER = 0x420000"
definition SAVE_RAM_START :: u32 where "SAVE_RAM_START = 0x700000"
definition SAVE_RAM_END :: u32 where "SAVE_RAM_END = 0x70FFFF"
definition MAX_BANKS :: nat where "MAX_BANKS = 16"
definition BANK_SIZE :: u32 where "BANK_SIZE = 0x400000"

definition zero_header :: ROMHeader where
  "zero_header = \<lparr> mainCPU_entryPoint = 0, graphicsCPU_entryPoint = 0,
     soundCPU_entryPoint = 0, paletteData = 0, tileData = 0, audioData = 0,
     version = 0 \<rparr>"

text \<open>\<open>rom[i] | (rom[i+1] << 8) | (rom[i+2] << 16)\<close>, read only when the ROM has
  at least 256 bytes.\<close>

definition le24 :: "u8 list \<Rightarrow> nat \<Rightarrow> u32" where
  "le24 bs i = ucast (bs ! i) OR push_bit 8 (ucast (bs ! (i + 1)))
                 OR push_bit 16 (ucast (bs ! (i + 2)))"

definition parseHeader :: "cartridge \<Rightarrow> cartridge" where
  "parseHeader c =
     (if length (rom c) < 256 then c
      else c\<lparr> header := \<lparr> mainCPU_entryPoint = le24 (rom c) 0,
                            graphicsCPU_entryPoint = le24 (rom c) 3,
                            soundCPU_entryPoint = le24 (rom c) 6,
                            paletteData = le24 (rom c) 9,
                            tileData = le24 (rom c) 12,
                            audioData = le24 (rom c) 15,
                            version = rom c ! 50 \<rparr> \<rparr>)"

text \<open>The constructor: no ROM, no save RAM, bank 0, a zeroed header.\<close>

definition new_cartridge :: cartridge where
  "new_cartridge = \<lparr> rom = [], saveRAM = [], currentBank = 0, header = zero_header \<rparr>"

text \<open>\<open>loadROM(data, size)\<close>: rejects an empty image and one above 64 MB.\<close>

definition loadROM :: "cartridge \<Rightarrow> u8 list \<Rightarrow> cartridge option" where
  "loadROM c bytes =
     (if length bytes = 0 then None
      else if length bytes > unat BANK_SIZE * MAX_BANKS then None
      else Some ((parseHeader (c\<lparr> rom := bytes \<rparr>))\<lparr> currentBank := 0 \<rparr>))"

definition isLoaded :: "cartridge \<Rightarrow> bool" where
  "isLoaded c = (length (rom c) > 0)"

definition addressInROMWindow :: "u32 \<Rightarrow> bool" where
  "addressInROMWindow a = (a \<ge> ROM_WINDOW_START \<and> a \<le> ROM_WINDOW_END)"

definition addressInSaveRAM :: "u32 \<Rightarrow> bool" where
  "addressInSaveRAM a = (a \<ge> SAVE_RAM_START \<and> a \<le> SAVE_RAM_END)"

definition setBank :: "cartridge \<Rightarrow> u8 \<Rightarrow> cartridge" where
  "setBank c b = c\<lparr> currentBank := (if unat b \<ge> MAX_BANKS then 0 else b) \<rparr>"

text \<open>\<open>mapAddress\<close>: all arithmetic is on \<open>uint32_t\<close>.\<close>

definition mapAddress :: "cartridge \<Rightarrow> u32 \<Rightarrow> u32" where
  "mapAddress c a = (ucast (currentBank c) * BANK_SIZE) + (a - ROM_WINDOW_START)"

definition cart_readByte :: "cartridge \<Rightarrow> address \<Rightarrow> u8" where
  "cart_readByte c addr =
     (let fa = flatAddr addr in
      if fa \<ge> 0x00FFFC \<and> fa \<le> 0x00FFFF then
        (if unat fa < length (rom c) then rom c ! unat fa else 0xFF)
      else if fa \<ge> 0x008000 \<and> fa \<le> 0x00FFFF then
        (if unat fa < length (rom c) then rom c ! unat fa else 0xFF)
      else if addressInROMWindow fa then
        (let romAddr = mapAddress c fa in
         if unat romAddr < length (rom c) then rom c ! unat romAddr else 0xFF)
      else if addressInSaveRAM fa then
        (let off = fa - SAVE_RAM_START in
         if unat off < length (saveRAM c) then saveRAM c ! unat off else 0xFF)
      else 0xFF)"

definition cart_storeByte :: "cartridge \<Rightarrow> address \<Rightarrow> u8 \<Rightarrow> cartridge" where
  "cart_storeByte c addr v =
     (let fa = flatAddr addr in
      if fa = BANK_REGISTER then setBank c (v AND 0x0F)
      else if addressInSaveRAM fa then
        (let off = fa - SAVE_RAM_START in
         if unat off < length (saveRAM c)
         then c\<lparr> saveRAM := (saveRAM c)[unat off := v] \<rparr> else c)
      else c)"

section \<open>Vectors, RAM and mailboxes (ram.cpp, mailbox.cpp)\<close>

text \<open>
  \<open>std::vector::operator[]\<close> is unchecked: an index at or beyond the vector's length
  is undefined behaviour.  The model makes that an explicit failure (\<open>None\<close>), so that
  "never reads out of range" is a statement that can be proved.
\<close>

definition vec_get :: "'a list \<Rightarrow> nat \<Rightarrow> 'a option" where
  "vec_get xs i = (if i < length xs then Some (xs ! i) else None)"

definition vec_set :: "'a list \<Rightarrow> nat \<Rightarrow> 'a \<Rightarrow> 'a list option" where
  "vec_set xs i v = (if i < length xs then Some (xs[i := v]) else None)"

record RAM =
  ram_baseAddress :: u32
  ram_size :: u32
  ram_data :: "u8 list"

text \<open>The constructor: \<open>data.resize(size, 0x00)\<close>.\<close>

definition new_RAM :: "u32 \<Rightarrow> u32 \<Rightarrow> RAM" where
  "new_RAM base sz = \<lparr> ram_baseAddress = base, ram_size = sz,
                         ram_data = replicate (unat sz) 0 \<rparr>"

text \<open>The class invariant the constructor sets up: the vector has \<open>size\<close> bytes.\<close>

definition ram_wf :: "RAM \<Rightarrow> bool" where
  "ram_wf r = (length (ram_data r) = unat (ram_size r))"

definition RAM_readByte :: "RAM \<Rightarrow> address \<Rightarrow> u8 option" where
  "RAM_readByte r addr =
     (let off = flatAddr addr - ram_baseAddress r in
      if off < ram_size r then vec_get (ram_data r) (unat off) else Some 0xFF)"

definition RAM_storeByte :: "RAM \<Rightarrow> address \<Rightarrow> u8 \<Rightarrow> RAM option" where
  "RAM_storeByte r addr v =
     (let off = flatAddr addr - ram_baseAddress r in
      if off < ram_size r
      then map_option (\<lambda>d. r\<lparr> ram_data := d \<rparr>) (vec_set (ram_data r) (unat off) v)
      else Some r)"

text \<open>
  Callbacks are \<open>std::function\<close> slots.  A device's model records whether a slot is
  bound and returns, next to its new state, the list of callbacks it invoked, in order;
  the owner of the device (the emulator) runs them.
\<close>

datatype callback =
    WriteCallback
  | VBlankCallback
  | HBlankCallback
  | MailboxACallback
  | MailboxBCallback
  | GraphicsCPUReset bool

record Mailbox =
  mb_baseAddress :: u32
  mb_size :: u32
  mb_data :: "u8 list"
  newDataFlag :: bool
  busyFlag :: bool
  writeCallback :: bool

definition new_Mailbox :: "u32 \<Rightarrow> u32 \<Rightarrow> Mailbox" where
  "new_Mailbox base sz = \<lparr> mb_baseAddress = base, mb_size = sz,
       mb_data = replicate (unat sz) 0, newDataFlag = False, busyFlag = False,
       writeCallback = False \<rparr>"

definition setWriteCallback :: "Mailbox \<Rightarrow> Mailbox" where
  "setWriteCallback m = m\<lparr> writeCallback := True \<rparr>"

definition mb_wf :: "Mailbox \<Rightarrow> bool" where
  "mb_wf m = (length (mb_data m) = unat (mb_size m))"

definition mb_offset :: "Mailbox \<Rightarrow> address \<Rightarrow> u32" where
  "mb_offset m addr = (flatAddr addr - mb_baseAddress m) AND 0xFFFFFF"

definition Mailbox_readByte :: "Mailbox \<Rightarrow> address \<Rightarrow> (u8 \<times> Mailbox) option" where
  "Mailbox_readByte m addr =
     (let off = mb_offset m addr in
      if off < mb_size m
      then (let m' = (if newDataFlag m then m\<lparr> newDataFlag := False \<rparr> else m)
            in map_option (\<lambda>b. (b, m')) (vec_get (mb_data m') (unat off)))
      else Some (0xFF, m))"

definition Mailbox_storeByte ::
    "Mailbox \<Rightarrow> address \<Rightarrow> u8 \<Rightarrow> (Mailbox \<times> callback list) option" where
  "Mailbox_storeByte m addr v =
     (let off = mb_offset m addr in
      if off < mb_size m
      then map_option
             (\<lambda>d. (m\<lparr> mb_data := d, newDataFlag := True \<rparr>,
                   if writeCallback m then [WriteCallback] else []))
             (vec_set (mb_data m) (unat off) v)
      else Some (m, []))"

definition Mailbox_decodeAddress :: "Mailbox \<Rightarrow> address \<Rightarrow> bool" where
  "Mailbox_decodeAddress m addr =
     (flatAddr addr \<ge> mb_baseAddress m \<and> flatAddr addr < mb_baseAddress m + mb_size m)"

section \<open>The CPU's pins\<close>

text \<open>
  Modelled from the spec: the 65C816 core (\<open>Cpu65816\<close>) is an external collaborator
  whose sources are not at hand; the spec pins only \<open>set_res_pin\<close>, \<open>set_rdy_pin\<close>,
  \<open>set_irq_pin\<close>, \<open>set_program_address\<close> and \<open>get_program_address\<close>.  The model
  keeps the three pins and the program address, and each setter writes its own field.
\<close>

record Cpu65816 =
  RES :: bool
  RDY :: bool
  IRQ :: bool
  programAddress :: address

definition setRESPin :: "bool \<Rightarrow> Cpu65816 \<Rightarrow> Cpu65816" where
  "setRESPin v c = c\<lparr> RES := v \<rparr>"

definition setRDYPin :: "bool \<Rightarrow> Cpu65816 \<Rightarrow> Cpu65816" where
  "setRDYPin v c = c\<lparr> RDY := v \<rparr>"

definition setIRQPin :: "bool \<Rightarrow> Cpu65816 \<Rightarrow> Cpu65816" where
  "setIRQPin v c = c\<lparr> IRQ := v \<rparr>"

definition setProgramAddress :: "address \<Rightarrow> Cpu65816 \<Rightarrow> Cpu65816" where
  "setProgramAddress a c = c\<lparr> programAddress := a \<rparr>"

section \<open>CPLD2: video timing and the mailbox-A handler (cpld2_video.cpp)\<close>

datatype VideoMode = MODE_240P | MODE_480I

record CPLD2_Video =
  videoMode :: VideoMode
  rasterLine :: u16
  rasterX :: u16
  inVBlank :: bool
  inHBlank :: bool
  vblankIRQPending :: bool
  hblankIRQPending :: bool
  vblankCallback :: bool
  hblankCallback :: bool
  graphicsRAM_attached :: bool
  mailboxA_attached :: bool
  graphicsCPUReset_bound :: bool
  mailboxACallback :: bool
  mailboxBCallback :: bool

definition PIXELS_PER_LINE :: u16 where "PIXELS_PER_LINE = 857"
definition LINES_PER_FRAME_240P :: u16 where "LINES_PER_FRAME_240P = 262"
definition LINES_PER_FRAME_480I :: u16 where "LINES_PER_FRAME_480I = 525"
definition HBLANK_START :: u16 where "HBLANK_START = 0"
definition HBLANK_END :: u16 where "HBLANK_END = 137"
definition VBLANK_LINES_240P :: u16 where "VBLANK_LINES_240P = 22"
definition VBLANK_LINES_480I :: u16 where "VBLANK_LINES_480I = 22"

definition CPLD2_reset :: "CPLD2_Video \<Rightarrow> CPLD2_Video" where
  "CPLD2_reset s = s\<lparr> rasterLine := 0, rasterX := 0, inVBlank := True, inHBlank := True,
                       vblankIRQPending := False, hblankIRQPending := False \<rparr>"

text \<open>The constructor: 240p, no callback bound, nothing attached, then \<open>reset()\<close>.\<close>

definition new_CPLD2 :: CPLD2_Video where
  "new_CPLD2 = CPLD2_reset \<lparr> videoMode = MODE_240P, rasterLine = 0, rasterX = 0,
      inVBlank = True, inHBlank = True, vblankIRQPending = False,
      hblankIRQPending = False, vblankCallback = False, hblankCallback = False,
      graphicsRAM_attached = False, mailboxA_attached = False,
      graphicsCPUReset_bound = False, mailboxACallback = False,
      mailboxBCallback = False \<rparr>"

definition getTotalLines :: "CPLD2_Video \<Rightarrow> u16" where
  "getTotalLines s =
     (if videoMode s = MODE_240P then LINES_PER_FRAME_240P else LINES_PER_FRAME_480I)"

definition updateBlankingFlags :: "CPLD2_Video \<Rightarrow> CPLD2_Video" where
  "updateBlankingFlags s =
     (let s1 = s\<lparr> inHBlank := (rasterX s \<ge> HBLANK_START \<and> rasterX s \<le> HBLANK_END) \<rparr>
      in if videoMode s1 = MODE_240P
         then s1\<lparr> inVBlank := (rasterLine s1 < VBLANK_LINES_240P) \<rparr>
         else s1\<lparr> inVBlank := (rasterLine s1 < VBLANK_LINES_480I \<or>
                   (rasterLine s1 \<ge> 262 \<and> rasterLine s1 < 262 + VBLANK_LINES_480I)) \<rparr>)"

text \<open>One pixel clock.  The second component lists the callbacks fired by this tick.\<close>

definition tick :: "CPLD2_Video \<Rightarrow> CPLD2_Video \<times> callback list" where
  "tick s =
     (let s1 = s\<lparr> rasterX := rasterX s + 1 \<rparr> in
      if rasterX s1 \<ge> PIXELS_PER_LINE then
        (let s2 = s1\<lparr> rasterX := 0, rasterLine := rasterLine s1 + 1 \<rparr> in
         if rasterLine s2 \<ge> getTotalLines s2 then
           (let s3 = s2\<lparr> rasterLine := 0 \<rparr> in
            if \<not> vblankIRQPending s3
            then (updateBlankingFlags (s3\<lparr> vblankIRQPending := True \<rparr>),
                  if vblankCallback s3 then [VBlankCallback] else [])
            else (updateBlankingFlags s3, []))
         else (updateBlankingFlags s2, []))
      else (updateBlankingFlags s1, []))"

text \<open>\<open>n\<close> calls of \<open>tick()\<close> in a row, collecting the callbacks in firing order.\<close>

fun ticks :: "nat \<Rightarrow> CPLD2_Video \<Rightarrow> CPLD2_Video \<times> callback list" where
  "ticks 0 s = (s, [])"
| "ticks (Suc n) s =
     (let (s1, ev1) = tick s; (s2, ev2) = ticks n s1 in (s2, ev1 @ ev2))"

text \<open>
  The copy loop of the boot command, \<open>for (uint16_t i = 0; i < length; i++)\<close>: the
  first argument counts the iterations still to run (\<open>length - i\<close>), the second is
  \<open>i\<close>.  Both address computations are truncated to the 16-bit offset of \<open>Address\<close>.
\<close>

fun boot_copy :: "nat \<Rightarrow> u16 \<Rightarrow> u8 \<Rightarrow> u16 \<Rightarrow> Mailbox \<Rightarrow> RAM \<Rightarrow> (Mailbox \<times> RAM) option" where
  "boot_copy 0 i mbank dest mb ram = Some (mb, ram)"
| "boot_copy (Suc k) i mbank dest mb ram =
     (case Mailbox_readByte mb (Address mbank (0x0005 + i)) of
        None \<Rightarrow> None
      | Some (d, mb1) \<Rightarrow>
          (case RAM_storeByte ram (Address 0x00 (dest + i)) d of
             None \<Rightarrow> None
           | Some ram1 \<Rightarrow> boot_copy k (i + 1) mbank dest mb1 ram1))"

text \<open>The debug hexdump after the copy reads the first 32 bytes of the RAM.\<close>

definition hexdump32 :: "RAM \<Rightarrow> u8 list option" where
  "hexdump32 ram = those (map (\<lambda>i. RAM_readByte ram (Address 0x00 (of_nat i))) [0..<32])"

definition le16 :: "u8 \<Rightarrow> u8 \<Rightarrow> u16" where
  "le16 lo hi = ucast lo OR push_bit 8 (ucast hi)"

text \<open>
  \<open>onMailboxAWrite\<close>.  The two objects the CPLD points to are passed in and returned;
  \<open>None\<close> stands for an out-of-range vector access somewhere on the way.
\<close>

definition onMailboxAWrite ::
    "CPLD2_Video \<Rightarrow> Mailbox \<Rightarrow> RAM \<Rightarrow> (Mailbox \<times> RAM \<times> callback list) option" where
  "onMailboxAWrite s mb ram =
     (let generic = (if mailboxACallback s then [MailboxACallback] else []) in
      if mailboxA_attached s \<and> graphicsRAM_attached s then
        (case Mailbox_readByte mb (Address 0x40 0x0000) of
           None \<Rightarrow> None
         | Some (cmd, mb0) \<Rightarrow>
             if cmd = 0x01 then
               (case Mailbox_readByte mb0 (Address 0x40 0x0001) of None \<Rightarrow> None
                | Some (destLo, mb1) \<Rightarrow>
               (case Mailbox_readByte mb1 (Address 0x40 0x0002) of None \<Rightarrow> None
                | Some (destHi, mb2) \<Rightarrow>
               (case Mailbox_readByte mb2 (Address 0x40 0x0003) of None \<Rightarrow> None
                | Some (lenLo, mb3) \<Rightarrow>
               (case Mailbox_readByte mb3 (Address 0x40 0x0004) of None \<Rightarrow> None
                | Some (lenHi, mb4) \<Rightarrow>
               (case boot_copy (unat (le16 lenLo lenHi)) 0 0x40 (le16 destLo destHi) mb4 ram of
                  None \<Rightarrow> None
                | Some (mb5, ram1) \<Rightarrow>
               (case hexdump32 ram1 of None \<Rightarrow> None
                | Some _ \<Rightarrow>
                    Some (mb5, ram1,
                          if graphicsCPUReset_bound s then [GraphicsCPUReset False] else [])))))))
             else Some (mb0, ram, generic))
      else Some (mb, ram, generic))"

section \<open>The emulator's wiring (emulator.cpp)\<close>

text \<open>
  The part of the emulator's object graph that the reset and boot paths touch.  The
  \<open>unique_ptr\<close> members are options: \<open>None\<close> is the null pointer they hold before
  \<open>initialize()\<close> (or, for the cartridge, before a ROM is loaded).  The master clock,
  the main and sound memories, CPLD1/CPLD3, the renderer and the mixer are left out:
  the functions below do not pass data between them and the fields kept here.
\<close>

record Emulator =
  initialized :: bool
  cartridge :: "cartridge option"
  mainCPU :: "Cpu65816 option"
  graphicsCPU :: "Cpu65816 option"
  soundCPU :: "Cpu65816 option"
  graphicsRAM :: "RAM option"
  mailboxA :: "Mailbox option"
  cpld2 :: "CPLD2_Video option"

text \<open>
  The two lambdas \<open>setupCallbacks\<close> binds in CPLD2.  Both dereference
  \<open>graphicsCPU\<close> unchecked.  The debug read \<open>graphicsBus->readByte(0:0)\<close> inside
  the first one lands in Graphics RAM, whose reads change nothing, and is left out.
\<close>

definition graphicsCPUReset_lambda :: "bool \<Rightarrow> Emulator \<Rightarrow> Emulator option" where
  "graphicsCPUReset_lambda state e =
     (case graphicsCPU e of
        None \<Rightarrow> None
      | Some c \<Rightarrow>
          if \<not> state
          then Some (e\<lparr> graphicsCPU := Some (setProgramAddress (Address 0 0) (setRESPin False c)) \<rparr>)
          else Some (e\<lparr> graphicsCPU := Some (setRESPin True c) \<rparr>))"

definition mailboxACallback_lambda :: "Emulator \<Rightarrow> Emulator option" where
  "mailboxACallback_lambda e =
     (case graphicsCPU e of
        None \<Rightarrow> None
      | Some c \<Rightarrow> Some (e\<lparr> graphicsCPU := Some (setIRQPin True c) \<rparr>))"

text \<open>Running the callbacks CPLD2 fired, in order.\<close>

fun run_cpld2_callbacks :: "callback list \<Rightarrow> Emulator \<Rightarrow> Emulator option" where
  "run_cpld2_callbacks [] e = Some e"
| "run_cpld2_callbacks (GraphicsCPUReset b # cs) e =
     (case graphicsCPUReset_lambda b e of None \<Rightarrow> None
      | Some e1 \<Rightarrow> run_cpld2_callbacks cs e1)"
| "run_cpld2_callbacks (MailboxACallback # cs) e =
     (case mailboxACallback_lambda e of None \<Rightarrow> None
      | Some e1 \<Rightarrow> run_cpld2_callbacks cs e1)"
| "run_cpld2_callbacks (_ # cs) e = run_cpld2_callbacks cs e"

text \<open>Mailbox A's write callback: \<open>[this]() { cpld2->onMailboxAWrite(); }\<close>.\<close>

definition mailboxA_writeCallback :: "Emulator \<Rightarrow> Emulator option" where
  "mailboxA_writeCallback e =
     (case (cpld2 e, mailboxA e, graphicsRAM e) of
        (Some s, Some mb, Some ram) \<Rightarrow>
          (case onMailboxAWrite s mb ram of
             None \<Rightarrow> None
           | Some (mb1, ram1, cbs) \<Rightarrow>
               run_cpld2_callbacks cbs (e\<lparr> mailboxA := Some mb1, graphicsRAM := Some ram1 \<rparr>))
      | _ \<Rightarrow> None)"

text \<open>A bus write that decodes to mailbox A: \<open>mailboxA->storeByte(addr, v)\<close>, whose
  callback runs before the store returns.\<close>

definition mailboxA_store :: "Emulator \<Rightarrow> address \<Rightarrow> u8 \<Rightarrow> Emulator option" where
  "mailboxA_store e addr v =
     (case mailboxA e of
        None \<Rightarrow> None
      | Some mb \<Rightarrow>
          (case Mailbox_storeByte mb addr v of
             None \<Rightarrow> None
           | Some (mb1, cbs) \<Rightarrow>
               (let e1 = e\<lparr> mailboxA := Some mb1 \<rparr> in
                if WriteCallback \<in> set cbs then mailboxA_writeCallback e1 else Some e1)))"

text \<open>
  The state \<open>initialize()\<close> leaves behind, as far as the fields above go:
  \<open>initializeMemory\<close>, \<open>initializeCPUs\<close> (RDY high on all three CPUs, RES asserted
  on the main CPU only; the two lines asserting it on the coprocessors are commented
  out), \<open>initializeVideo\<close> and \<open>setupCallbacks\<close>.  What the CPU core's constructor
  leaves in its pins is not in the sources, so it is a parameter.
\<close>

definition initialize :: "Cpu65816 \<Rightarrow> Emulator" where
  "initialize cpu0 =
     \<lparr> initialized = True,
       cartridge = None,
       mainCPU = Some (setRESPin True (setRDYPin True cpu0)),
       graphicsCPU = Some (setRDYPin True cpu0),
       soundCPU = Some (setRDYPin True cpu0),
       graphicsRAM = Some (new_RAM 0x000000 (128 * 1024)),
       mailboxA = Some (setWriteCallback (new_Mailbox 0x400000 1024)),
       cpld2 = Some (new_CPLD2\<lparr> graphicsRAM_attached := True, graphicsCPUReset_bound := True,
                                 mailboxA_attached := True, mailboxACallback := True \<rparr>) \<rparr>"

definition loadROMFromMemory :: "Emulator \<Rightarrow> u8 list \<Rightarrow> Emulator \<times> bool" where
  "loadROMFromMemory e bytes =
     (if \<not> initialized e then (e, False)
      else case loadROM new_cartridge bytes of
             None \<Rightarrow> (e\<lparr> cartridge := None \<rparr>, False)
           | Some c \<Rightarrow> (e\<lparr> cartridge := Some c \<rparr>, True))"

definition entry_address :: "u32 \<Rightarrow> address" where
  "entry_address entryPoint = Address (ucast (drop_bit 16 entryPoint)) (ucast (entryPoint AND 0xFFFF))"

definition cartridge_loaded :: "Emulator \<Rightarrow> cartridge option" where
  "cartridge_loaded e =
     (case cartridge e of None \<Rightarrow> None | Some c \<Rightarrow> if isLoaded c then Some c else None)"

definition reset_mainCPU :: "Emulator \<Rightarrow> Cpu65816 \<Rightarrow> Cpu65816" where
  "reset_mainCPU e c =
     (let c1 = setRESPin False (setRESPin True c) in
      case cartridge_loaded e of
        None \<Rightarrow> c1
      | Some cart \<Rightarrow> setProgramAddress (entry_address (mainCPU_entryPoint (header cart))) c1)"

definition reset_graphicsCPU :: "Emulator \<Rightarrow> Cpu65816 \<Rightarrow> Cpu65816" where
  "reset_graphicsCPU e c =
     (let c1 = setRESPin False c in
      case cartridge_loaded e of
        None \<Rightarrow> c1
      | Some cart \<Rightarrow>
          (let entryPoint = graphicsCPU_entryPoint (header cart) in
           if entryPoint \<noteq> 0
           then setProgramAddress (entry_address entryPoint) (setRESPin False c1)
           else c1))"

definition reset_soundCPU :: "Emulator \<Rightarrow> Cpu65816 \<Rightarrow> Cpu65816" where
  "reset_soundCPU e c =
     (let c1 = setRESPin False (setRESPin True c) in
      case cartridge_loaded e of
        None \<Rightarrow> c1
      | Some cart \<Rightarrow> setProgramAddress (entry_address (soundCPU_entryPoint (header cart))) c1)"

text \<open>\<open>Emulator::reset()\<close>.\<close>

definition reset :: "Emulator \<Rightarrow> Emulator" where
  "reset e =
     (if \<not> initialized e then e
      else e\<lparr> mainCPU := map_option (reset_mainCPU e) (mainCPU e),
                graphicsCPU := map_option (reset_graphicsCPU e) (graphicsCPU e),
                soundCPU := map_option (reset_soundCPU e) (soundCPU e) \<rparr>)"

text \<open>The raster state at pixel \<open>x\<close> of line \<open>l\<close> in 240p mode, with the blanking
  flags \<open>updateBlankingFlags\<close> gives there; used to describe runs of \<open>tick\<close>.\<close>

definition raster_at :: "nat \<Rightarrow> nat \<Rightarrow> CPLD2_Video \<Rightarrow> CPLD2_Video" where
  "raster_at x l s = s\<lparr> rasterLine := of_nat l, rasterX := of_nat x,
                  inVBlank := (l < 22), inHBlank := (x \<le> 137) \<rparr>"

text \<open>The byte \<open>Mailbox::readByte\<close> returns at an address: the stored byte inside the
  mailbox, \<open>0xFF\<close> outside.\<close>

definition mb_peek :: "Mailbox \<Rightarrow> address \<Rightarrow> u8" where
  "mb_peek m addr =
     (if mb_offset m addr < mb_size m then mb_data m ! unat (mb_offset m addr) else 0xFF)"

text \<open>What the copy loop leaves in the RAM's vector when every access is in range
  and the mailbox's \<open>new_data\<close> flag is already clear.\<close>

fun boot_image :: "nat \<Rightarrow> u16 \<Rightarrow> u8 \<Rightarrow> u16 \<Rightarrow> Mailbox \<Rightarrow> u8 list \<Rightarrow> u8 list" where
  "boot_image 0 i mbank dest mb d = d"
| "boot_image (Suc k) i mbank dest mb d =
     boot_image k (i + 1) mbank dest mb
       (d[unat (dest + i) := mb_peek mb (Address mbank (0x0005 + i))])"

text \<open>
  The wiring \<open>initialize()\<close> sets up and every later step keeps: CPLD2 points to
  mailbox A and to Graphics RAM and has both of its callbacks bound, mailbox A notifies
  CPLD2, and both memories have the base, size and vector length their constructors
  gave them.
\<close>

definition gfx_boot_wired :: "Emulator \<Rightarrow> bool" where
  "gfx_boot_wired e =
     (case (cpld2 e, mailboxA e, graphicsRAM e, graphicsCPU e) of
        (Some s, Some mb, Some ram, Some c) \<Rightarrow>
          mailboxA_attached s \<and> graphicsRAM_attached s \<and> graphicsCPUReset_bound s \<and>
          mailboxACallback s \<and> writeCallback mb \<and>
          mb_wf mb \<and> mb_baseAddress mb = 0x400000 \<and> mb_size mb = 1024 \<and>
          ram_wf ram \<and> ram_baseAddress ram = 0x000000 \<and> ram_size ram = 0x20000
      | _ \<Rightarrow> False)"

text \<open>The machine just before the last byte of the boot message
  \<open>01 00 10 03 00 DE AD BE\<close> is written.\<close>

definition boot_demo :: Emulator where
  "boot_demo =
     (initialize \<lparr> RES = True, RDY = False, IRQ = False, programAddress = Address 0xC0 0x8000 \<rparr>)
       \<lparr> mailboxA := Some (setWriteCallback
            ((new_Mailbox 0x400000 1024)
               \<lparr> mb_data := [0x01, 0x00, 0x10, 0x03, 0x00, 0xDE, 0xAD, 0x00] @ replicate 1016 0 \<rparr>)) \<rparr>"

text \<open>A ROM image whose header gives the main CPU the entry point \<open>$C08000\<close> and
  leaves the graphics and sound entry points zero, and a CPU core as constructed with
  RES asserted.\<close>

definition mailbox_boot_rom :: "u8 list" where
  "mailbox_boot_rom = [0x00, 0x80, 0xC0] @ replicate 253 0"

definition cpu_in_reset :: Cpu65816 where
  "cpu_in_reset = \<lparr> RES = True, RDY = False, IRQ = False, programAddress = Address 0 0 \<rparr>"

section \<open>Memory bus (memory_bus.cpp)\<close>

text \<open>
  A mapped region holds a pointer to its device; the model keeps a device identifier
  \<open>'d\<close>, and the devices' own \<open>read\<close> and \<open>write\<close> are parameters of the bus
  operations.  A null device pointer is \<open>None\<close>.
\<close>

record 'd MappedRegion =
  baseAddress :: u32
  endAddress :: u32
  device :: 'd

text \<open>
  \<open>mapDevice\<close> appends the region and re-sorts the whole vector by base address.
  \<open>std::sort\<close> leaves the order of equal keys open; the model sorts stably, and the
  statements below that depend on the order of equal keys say so.  The overlap check
  only prints a warning.
\<close>

definition mapDevice ::
    "'d MappedRegion list \<Rightarrow> 'd option \<Rightarrow> u32 \<Rightarrow> u32 \<Rightarrow> 'd MappedRegion list" where
  "mapDevice mappedRegions dev base sz =
     (case dev of
        None \<Rightarrow> mappedRegions
      | Some d \<Rightarrow>
          if sz = 0 then mappedRegions
          else sort_key (\<lambda>r. unat (baseAddress r))
                 (mappedRegions @
                    [\<lparr> baseAddress = base AND 0xFFFFFF,
                       endAddress = (base + sz - 1) AND 0xFFFFFF,
                       device = d \<rparr>]))"

fun findDevice :: "'d MappedRegion list \<Rightarrow> u32 \<Rightarrow> 'd option" where
  "findDevice [] a = None"
| "findDevice (r # rs) a =
     (if a \<ge> baseAddress r \<and> a \<le> endAddress r then Some (device r)
      else if a < baseAddress r then None
      else findDevice rs a)"

definition bus_read ::
    "'d MappedRegion list \<Rightarrow> ('d \<Rightarrow> u32 \<Rightarrow> 's \<Rightarrow> u8 \<times> 's) \<Rightarrow> u32 \<Rightarrow> 's \<Rightarrow> u8 \<times> 's" where
  "bus_read mappedRegions dev_read a st =
     (let a' = a AND 0xFFFFFF in
      case findDevice mappedRegions a' of
        Some d \<Rightarrow> dev_read d a' st
      | None \<Rightarrow> (0xFF, st))"

definition bus_write ::
    "'d MappedRegion list \<Rightarrow> ('d \<Rightarrow> u32 \<Rightarrow> u8 \<Rightarrow> 's \<Rightarrow> 's) \<Rightarrow> u32 \<Rightarrow> u8 \<Rightarrow> 's \<Rightarrow> 's" where
  "bus_write mappedRegions dev_write a v st =
     (let a' = a AND 0xFFFFFF in
      case findDevice mappedRegions a' of
        Some d \<Rightarrow> dev_write d a' v st
      | None \<Rightarrow> st)"

text \<open>A bus built by mapping devices one after the other, first registration first.\<close>

fun mapAll :: "'d MappedRegion list \<Rightarrow> ('d option \<times> u32 \<times> u32) list \<Rightarrow> 'd MappedRegion list" where
  "mapAll regs [] = regs"
| "mapAll regs ((dev, base, sz) # ds) = mapAll (mapDevice regs dev base sz) ds"

text \<open>A region claims an address when the address lies between its two bounds.\<close>

definition claims :: "'d MappedRegion \<Rightarrow> u32 \<Rightarrow> bool" where
  "claims r a = (a \<ge> baseAddress r \<and> a \<le> endAddress r)"

text \<open>The region a registration request stands for, if it registers one.\<close>

definition region_of :: "'d option \<times> u32 \<times> u32 \<Rightarrow> 'd MappedRegion option" where
  "region_of req =
     (case req of (dev, base, sz) \<Rightarrow>
        (case dev of
           None \<Rightarrow> None
         | Some d \<Rightarrow>
             if sz = 0 then None
             else Some \<lparr> baseAddress = base AND 0xFFFFFF,
                         endAddress = (base + sz - 1) AND 0xFFFFFF, device = d \<rparr>))"

text \<open>The regions of a list of requests, in registration order.\<close>

definition registered :: "('d option \<times> u32 \<times> u32) list \<Rightarrow> 'd MappedRegion list" where
  "registered reqs = List.map_filter region_of reqs"

text \<open>What the spec's sentence asks of a read: the first registered claimant
  answers.\<close>

definition first_registered_claimant ::
    "('d option \<times> u32 \<times> u32) list \<Rightarrow> u32 \<Rightarrow> 'd option" where
  "first_registered_claimant reqs a =
     map_option device (find (\<lambda>r. claims r a) (registered reqs))"

section \<open>CPLD3: the scanline table (cpld3_raster.cpp)\<close>

record TableEntry =
  scrollOffset :: u16
  paletteSelect :: u8

record CPLD3_Raster =
  tableMode :: bool
  scrollOffsetReg :: u16
  paletteSelectReg :: u8
  currentScrollOffset :: u16
  currentPaletteSelect :: u8
  scanlineTable :: "TableEntry list"
  tableIndex :: u16
  tableAddr :: u16
  tableByteOffset :: u8
  irqScanline :: u16
  irqEnable :: bool
  irqPending :: bool
  irqCallback :: bool

definition CPLD3_reset :: "CPLD3_Raster \<Rightarrow> CPLD3_Raster" where
  "CPLD3_reset s = s\<lparr> tableMode := False, scrollOffsetReg := 0, paletteSelectReg := 0,
       currentScrollOffset := 0, currentPaletteSelect := 0, tableIndex := 0, tableAddr := 0,
       tableByteOffset := 0, irqScanline := 0, irqEnable := False, irqPending := False,
       scanlineTable := map (\<lambda>_. \<lparr> scrollOffset = 0, paletteSelect = 0 \<rparr>) (scanlineTable s) \<rparr>"

text \<open>The constructor; \<open>scanlineTable\<close> is a \<open>std::array\<close> of 262 entries.\<close>

definition new_CPLD3 :: CPLD3_Raster where
  "new_CPLD3 = CPLD3_reset \<lparr> tableMode = False, scrollOffsetReg = 0, paletteSelectReg = 0,
       currentScrollOffset = 0, currentPaletteSelect = 0,
       scanlineTable = replicate 262 \<lparr> scrollOffset = 0, paletteSelect = 0 \<rparr>,
       tableIndex = 0, tableAddr = 0, tableByteOffset = 0, irqScanline = 0,
       irqEnable = False, irqPending = False, irqCallback = False \<rparr>"

definition CPLD3_base :: u32 where "CPLD3_base = 0x400300"

text \<open>
  \<open>storeByte\<close>.  The 16-bit registers are \<open>int16_t\<close>/\<open>uint16_t\<close>; the byte merges
  are done in \<open>int\<close> and truncated back to 16 bits, which on words is the plain
  \<open>AND\<close>/\<open>OR\<close>.  Each \<open>scanlineTable[tableAddr]\<close> sits under the guard
  \<open>tableAddr < 262\<close>.
\<close>

definition CPLD3_storeByte :: "CPLD3_Raster \<Rightarrow> address \<Rightarrow> u8 \<Rightarrow> CPLD3_Raster" where
  "CPLD3_storeByte s addr v =
     (let off = flatAddr addr - CPLD3_base in
      if off = 0x00 then s\<lparr> scrollOffsetReg := (scrollOffsetReg s AND 0xFF00) OR ucast v \<rparr>
      else if off = 0x01 then
        s\<lparr> scrollOffsetReg := (scrollOffsetReg s AND 0x00FF) OR push_bit 8 (ucast v) \<rparr>
      else if off = 0x02 then s\<lparr> paletteSelectReg := v \<rparr>
      else if off = 0x04 then s\<lparr> irqScanline := (irqScanline s AND 0xFF00) OR ucast v \<rparr>
      else if off = 0x05 then
        s\<lparr> irqScanline := (irqScanline s AND 0x00FF) OR push_bit 8 (ucast (v AND 0x01)) \<rparr>
      else if off = 0x06 then s\<lparr> irqEnable := (v AND 0x01 \<noteq> 0) \<rparr>
      else if off = 0x08 then (if v AND 0x01 \<noteq> 0 then s\<lparr> irqPending := False \<rparr> else s)
      else if off = 0x10 then
        (let s1 = s\<lparr> tableMode := (v AND 0x01 \<noteq> 0) \<rparr>
         in if tableMode s1 then s1\<lparr> tableIndex := 0 \<rparr> else s1)
      else if off = 0x12 then
        s\<lparr> tableAddr := (tableAddr s AND 0xFF00) OR ucast v, tableByteOffset := 0 \<rparr>
      else if off = 0x13 then
        s\<lparr> tableAddr := (tableAddr s AND 0x00FF) OR push_bit 8 (ucast (v AND 0x01)),
           tableByteOffset := 0 \<rparr>
      else if off = 0x14 then
        (if tableAddr s < 262 then
           (let i = unat (tableAddr s); ent = scanlineTable s ! i in
            if tableByteOffset s = 0 then
              s\<lparr> scanlineTable := (scanlineTable s)
                     [i := ent\<lparr> scrollOffset := (scrollOffset ent AND 0xFF00) OR ucast v \<rparr>],
                 tableByteOffset := tableByteOffset s + 1 \<rparr>
            else if tableByteOffset s = 1 then
              s\<lparr> scanlineTable := (scanlineTable s)
                     [i := ent\<lparr> scrollOffset := (scrollOffset ent AND 0x00FF) OR push_bit 8 (ucast v) \<rparr>],
                 tableByteOffset := tableByteOffset s + 1 \<rparr>
            else if tableByteOffset s = 2 then
              s\<lparr> scanlineTable := (scanlineTable s)[i := ent\<lparr> paletteSelect := v \<rparr>],
                 tableByteOffset := 0, tableAddr := tableAddr s + 1 \<rparr>
            else s)
         else s)
      else s)"

definition TABLE_ADDR_LO :: address where "TABLE_ADDR_LO = Address 0x40 0x0312"
definition TABLE_ADDR_HI :: address where "TABLE_ADDR_HI = Address 0x40 0x0313"
definition TABLE_DATA :: address where "TABLE_DATA = Address 0x40 0x0314"

text \<open>A sequence of bus stores, oldest first.\<close>

fun CPLD3_stores :: "CPLD3_Raster \<Rightarrow> (address \<times> u8) list \<Rightarrow> CPLD3_Raster" where
  "CPLD3_stores s [] = s"
| "CPLD3_stores s ((a, v) # ws) = CPLD3_stores (CPLD3_storeByte s a v) ws"

section \<open>Video renderer: tint (video_renderer.cpp)\<close>

text \<open>\<open>std::clamp(v, lo, hi)\<close> on \<open>int\<close>.\<close>

definition clamp_int :: "int \<Rightarrow> int \<Rightarrow> int \<Rightarrow> int" where
  "clamp_int v lo hi = (if v < lo then lo else if hi < v then hi else v)"

text \<open>
  \<open>applyTint\<close>.  The tints are \<open>int8_t\<close>, read with \<open>sint\<close>; each channel is widened
  to \<open>int\<close>, offset, clamped and narrowed back to \<open>uint8_t\<close>.  The three assignments
  run in the source's order, so the third one reads the green channel the second one
  has just written.
\<close>

definition applyTint :: "u32 \<Rightarrow> u8 \<Rightarrow> u8 \<Rightarrow> u8 \<Rightarrow> u32" where
  "applyTint color tintR tintG tintB =
     (let r = (ucast (drop_bit 16 color AND 0xFF) :: u8);
          g = (ucast (drop_bit 8 color AND 0xFF) :: u8);
          b = (ucast (drop_bit 0 color AND 0xFF) :: u8);
          a = (ucast (drop_bit 24 color AND 0xFF) :: u8);
          r1 = (word_of_int (clamp_int (uint r + sint tintR) 0 255) :: u8);
          g1 = (word_of_int (clamp_int (uint g + sint tintG) 0 255) :: u8);
          b1 = (word_of_int (clamp_int (uint g1 + sint tintB) 0 255) :: u8)
      in push_bit 24 (ucast a) OR push_bit 16 (ucast r1) OR push_bit 8 (ucast g1) OR ucast b1)"

text \<open>The three colour channels of a pixel, as \<open>applyTint\<close> and
  \<open>applyBrightness\<close> read them.\<close>

definition red_of :: "u32 \<Rightarrow> int" where "red_of c = uint (drop_bit 16 c AND 0xFF)"
definition green_of :: "u32 \<Rightarrow> int" where "green_of c = uint (drop_bit 8 c AND 0xFF)"
definition blue_of :: "u32 \<Rightarrow> int" where "blue_of c = uint (c AND 0xFF)"

text \<open>The TABLE_DATA stores that send a list of rows \<open>(low, high, palette)\<close>.\<close>

fun row_writes :: "(u8 \<times> u8 \<times> u8) list \<Rightarrow> (address \<times> u8) list" where
  "row_writes [] = []"
| "row_writes ((lo, hi, pal) # rows) =
     (TABLE_DATA, lo) # (TABLE_DATA, hi) # (TABLE_DATA, pal) # row_writes rows"

text \<open>The table entry a row stands for.\<close>

definition table_row :: "u8 \<times> u8 \<times> u8 \<Rightarrow> TableEntry" where
  "table_row row = (case row of (lo, hi, pal) \<Rightarrow>
                      \<lparr> scrollOffset = le16 lo hi, paletteSelect = pal \<rparr>)"

text \<open>A freshly constructed CPLD3 after the table row index has been set through
  \<open>$400312/13\<close>.\<close>

definition at_row :: "u8 \<Rightarrow> u8 \<Rightarrow> CPLD3_Raster" where
  "at_row lo hi = CPLD3_stores new_CPLD3 [(TABLE_ADDR_LO, lo), (TABLE_ADDR_HI, hi)]"

text \<open>The TABLE_DATA stores that send a list of bytes, one store per byte.\<close>

definition data_writes :: "u8 list \<Rightarrow> (address \<times> u8) list" where
  "data_writes vs = map (\<lambda>v. (TABLE_DATA, v)) vs"

text \<open>
  The three bytes of a table entry in the order the write phases address them: byte 0 is
  the low byte of \<open>scrollOffset\<close>, byte 1 its high byte, byte 2 is \<open>paletteSelect\<close>.
\<close>

definition entry_byte :: "nat \<Rightarrow> TableEntry \<Rightarrow> u8" where
  "entry_byte c e =
     (if c = 0 then ucast (scrollOffset e)
      else if c = 1 then ucast (drop_bit 8 (scrollOffset e))
      else paletteSelect e)"

text \<open>The write position counted in bytes from the start of the table: three per row.\<close>

definition table_slot :: "CPLD3_Raster \<Rightarrow> nat" where
  "table_slot s = 3 * unat (tableAddr s) + unat (tableByteOffset s)"

text \<open>Two overlapping registrations: device 1 first, at \<open>$000100..$0001FF\<close>, then
  device 2 at \<open>$000000..$0001FF\<close>; and a device read that answers with the device's
  number.\<close>

definition overlap_demo :: "(nat option \<times> u32 \<times> u32) list" where
  "overlap_demo = [(Some 1, 0x000100, 0x100), (Some 2, 0x000000, 0x200)]"

definition id_read :: "nat \<Rightarrow> u32 \<Rightarrow> unit \<Rightarrow> u8 \<times> unit" where
  "id_read d a st = (of_nat d, st)"

section \<open>Video renderer: VRAM fetches (video_renderer.cpp)\<close>

text \<open>
  The renderer's \<open>vram\<close> pointer is an option: \<open>None\<close> before \<open>setVRAM\<close>, else the
  RAM it points to.  As for the RAM itself, \<open>None\<close> as a result is an out-of-range
  vector access.
\<close>

definition readVRAM :: "RAM option \<Rightarrow> u32 \<Rightarrow> u8 option" where
  "readVRAM vram fa =
     (case vram of
        None \<Rightarrow> Some 0
      | Some ram \<Rightarrow>
          if fa \<ge> 0x80000 then Some 0
          else RAM_readByte ram (Address (ucast (drop_bit 16 fa)) (ucast (fa AND 0xFFFF))))"

definition readVRAM16 :: "RAM option \<Rightarrow> u32 \<Rightarrow> u16 option" where
  "readVRAM16 vram a =
     (case readVRAM vram a of
        None \<Rightarrow> None
      | Some lo \<Rightarrow>
          (case readVRAM vram (a + 1) of
             None \<Rightarrow> None
           | Some hi \<Rightarrow> Some (le16 lo hi)))"

definition PALETTE_RAM :: u32 where "PALETTE_RAM = 0x014000"
definition SPRITE_OAM :: u32 where "SPRITE_OAM = 0x013000"
definition TILE_DATA_BASE :: u32 where "TILE_DATA_BASE = 0x020000"
definition FRAMEBUFFER :: u32 where "FRAMEBUFFER = 0x000000"
definition WIDTH :: nat where "WIDTH = 320"

text \<open>\<open>tilemapBases[layerIndex]\<close> for the five tile layers.\<close>

definition tilemapBases :: "u32 list" where
  "tilemapBases = [0x015000, 0x017000, 0x019000, 0x01B000, 0x01D000]"

definition rgb565_to_rgba8888 :: "u16 \<Rightarrow> u32" where
  "rgb565_to_rgba8888 rgb565 =
     (let r5 = (ucast (drop_bit 11 rgb565 AND 0x1F) :: u8);
          g6 = (ucast (drop_bit 5 rgb565 AND 0x3F) :: u8);
          b5 = (ucast (drop_bit 0 rgb565 AND 0x1F) :: u8);
          r = push_bit 3 r5 OR drop_bit 2 r5;
          g = push_bit 2 g6 OR drop_bit 4 g6;
          b = push_bit 3 b5 OR drop_bit 2 b5
      in 0xFF000000 OR push_bit 16 (ucast b) OR push_bit 8 (ucast g) OR ucast r)"

definition updatePaletteCache :: "RAM option \<Rightarrow> u32 list option" where
  "updatePaletteCache vram =
     those (map (\<lambda>i. map_option rgb565_to_rgba8888
                         (readVRAM16 vram (PALETTE_RAM + of_nat i * 2)))
                [0..<256])"

record Sprite =
  spr_x :: u16
  spr_y :: u16
  spr_tile :: u8
  spr_attributes :: u8
  spr_flags :: u8
  spr_priority :: u8

definition load_sprite :: "RAM option \<Rightarrow> nat \<Rightarrow> Sprite option" where
  "load_sprite vram i =
     (let oamAddr = SPRITE_OAM + of_nat i * 8 in
      case readVRAM16 vram (oamAddr + 0) of None \<Rightarrow> None | Some x \<Rightarrow>
      case readVRAM16 vram (oamAddr + 2) of None \<Rightarrow> None | Some y \<Rightarrow>
      case readVRAM vram (oamAddr + 4) of None \<Rightarrow> None | Some t \<Rightarrow>
      case readVRAM vram (oamAddr + 5) of None \<Rightarrow> None | Some attr \<Rightarrow>
      case readVRAM vram (oamAddr + 6) of None \<Rightarrow> None | Some fl \<Rightarrow>
      case readVRAM vram (oamAddr + 7) of None \<Rightarrow> None | Some pr \<Rightarrow>
        Some \<lparr> spr_x = x, spr_y = y, spr_tile = t, spr_attributes = attr,
               spr_flags = fl, spr_priority = pr \<rparr>)"

definition updateSpriteCache :: "RAM option \<Rightarrow> Sprite list option" where
  "updateSpriteCache vram = those (map (load_sprite vram) [0..<512])"

text \<open>The fetch of \<open>renderFramebufferMode\<close> for pixel \<open>x\<close> of a line:
  \<open>readVRAM(FRAMEBUFFER + line * WIDTH + x)\<close>.\<close>

definition framebuffer_fetch :: "RAM option \<Rightarrow> u16 \<Rightarrow> nat \<Rightarrow> u8 option" where
  "framebuffer_fetch vram line x =
     readVRAM vram (FRAMEBUFFER + of_nat (unat line * WIDTH) + of_nat x)"

text \<open>
  The fetches \<open>renderTileLayer\<close> makes for one screen column: the tilemap entry, then
  the byte of tile data holding the pixel.  \<open>scrollX\<close>, \<open>scrollY\<close> and \<open>control\<close>
  are the layer's register values, whatever CPLD2 returns for them.  The intermediate
  values are far below \<open>2^31\<close> (the world coordinates are masked to 9 bits, a tile
  number to 10), so the \<open>int\<close> arithmetic of the source is written on \<open>nat\<close>.  The
  result is the colour index before the transparency test.
\<close>

definition tile_layer_fetch ::
    "RAM option \<Rightarrow> u16 \<Rightarrow> nat \<Rightarrow> u16 \<Rightarrow> u16 \<Rightarrow> u8 \<Rightarrow> nat \<Rightarrow> u8 option" where
  "tile_layer_fetch vram line layerIndex scrollX scrollY control screenX =
     (let bpp = control AND 0x03;
          tileSize = drop_bit 2 control AND 0x01;
          mapSize = drop_bit 3 control AND 0x01;
          tilemapBase = tilemapBases ! layerIndex;
          tdim = (if tileSize \<noteq> 0 then 16 else 8 :: nat);
          worldY = (unat line + unat scrollY) mod 512;
          tileY = worldY div tdim;
          pixelY = worldY mod tdim;
          mapWidth = (if mapSize \<noteq> 0 then 64 else 32 :: nat);
          worldX = (screenX + unat scrollX) mod 512;
          tileX = worldX div tdim;
          pixelX = worldX mod tdim;
          tileMapAddr = tilemapBase + of_nat ((tileY * mapWidth + tileX) * 2)
      in case readVRAM16 vram tileMapAddr of
           None \<Rightarrow> None
         | Some tileEntry \<Rightarrow>
             (let tileNum = unat (tileEntry AND 0x3FF);
                  hflip = (tileEntry AND 0x0400 \<noteq> 0);
                  vflip = (tileEntry AND 0x0800 \<noteq> 0);
                  tilePalBank = (ucast (drop_bit 12 tileEntry AND 0x0F) :: u8);
                  px = (if hflip then (tdim - 1) - pixelX else pixelX);
                  py = (if vflip then (tdim - 1) - pixelY else pixelY);
                  bytesPerTile = (if bpp = 1 then (tdim * tdim) div 2
                                  else if bpp = 0 then (tdim * tdim) div 4
                                  else tdim * tdim);
                  tileAddr = TILE_DATA_BASE + of_nat (tileNum * bytesPerTile);
                  pixelAddr = tileAddr + of_nat (py * tdim)
              in if bpp = 0 then
                   map_option
                     (\<lambda>byte. (drop_bit ((3 - (px mod 4)) * 2) byte AND 0x03) OR push_bit 4 tilePalBank)
                     (readVRAM vram (pixelAddr + of_nat (px div 4)))
                 else if bpp = 1 then
                   map_option
                     (\<lambda>byte. (if px mod 2 = 1 then byte AND 0x0F else drop_bit 4 byte)
                              OR push_bit 4 tilePalBank)
                     (readVRAM vram (pixelAddr + of_nat (px div 2)))
                 else if bpp = 2 then readVRAM vram (pixelAddr + of_nat px)
                 else Some 0))"

text \<open>The fetch \<open>renderSpritesOnLine\<close> makes for one sprite pixel:
  \<open>readVRAM(TILE_DATA + spr.tile * 64 + (spriteY % 8) * 8 + (spriteX % 8))\<close>.\<close>

definition sprite_fetch :: "RAM option \<Rightarrow> Sprite \<Rightarrow> u16 \<Rightarrow> u16 \<Rightarrow> u8 option" where
  "sprite_fetch vram spr spriteY spriteX =
     readVRAM vram (TILE_DATA_BASE + of_nat (unat (spr_tile spr) * 64)
                      + of_nat ((unat spriteY mod 8) * 8) + of_nat (unat spriteX mod 8))"

text \<open>The renderer's pointer is either null or points to a RAM whose vector has the
  size the constructor gave it.\<close>

definition vram_ok :: "RAM option \<Rightarrow> bool" where
  "vram_ok vram = (case vram of None \<Rightarrow> True | Some ram \<Rightarrow> ram_wf ram)"

section \<open>Audio: CPLD1's frame and the mixer (cpld1_audio.cpp, audio_mixer.cpp)\<close>

type_synonym i16 = "16 word"

text \<open>Integer division of C++ truncates towards zero.\<close>

definition cdiv :: "int \<Rightarrow> int \<Rightarrow> int" where
  "cdiv a b = sgn a * sgn b * (\<bar>a\<bar> div \<bar>b\<bar>)"

text \<open>
  \<open>CPLD1_Audio::getAudioFrame\<close>: each FIFO is the list of its queued samples, front
  first; the sum of the fronts is divided by 8 and clamped.  The frame is mono: both
  outputs carry the same value.
\<close>

definition getAudioFrame :: "i16 list list \<Rightarrow> i16 \<times> i16" where
  "getAudioFrame fifos =
     (let mix = sum_list (map (\<lambda>q. case q of [] \<Rightarrow> 0 | s # _ \<Rightarrow> sint s) fifos);
          m8 = cdiv mix 8;
          out = word_of_int (clamp_int m8 (-32768) 32767)
      in (out, out))"

text \<open>
  The mixer computes in \<open>float\<close>.  The model computes in \<open>real\<close>, without rounding.
  Every value that occurs in the run evaluated below is an integer of magnitude below
  \<open>2^24\<close>, or \<open>0.0\<close>, \<open>1.0\<close> or \<open>0.01\<close> multiplied by zero, so binary32 arithmetic
  gives the same results there.
\<close>

record ChannelState =
  volume :: real
  pan :: real
  muted :: bool

record AudioMixer =
  channels :: "ChannelState list"
  masterVolume :: real
  autoGainControl :: bool
  currentGain :: real
  targetGain :: real

definition NUM_CHANNELS :: nat where "NUM_CHANNELS = 8"

definition AudioMixer_reset :: "AudioMixer \<Rightarrow> AudioMixer" where
  "AudioMixer_reset m =
     m\<lparr> channels := map (\<lambda>_. \<lparr> volume = 1, pan = 0, muted = False \<rparr>) (channels m),
        masterVolume := 1, autoGainControl := True, currentGain := 1, targetGain := 1 \<rparr>"

definition new_AudioMixer :: AudioMixer where
  "new_AudioMixer =
     AudioMixer_reset \<lparr> channels = replicate NUM_CHANNELS \<lparr> volume = 1, pan = 0, muted = False \<rparr>,
                        masterVolume = 1, autoGainControl = True, currentGain = 1,
                        targetGain = 1 \<rparr>"

text \<open>\<open>static_cast<int16_t>(float)\<close> truncates towards zero.\<close>

definition trunc_real :: "real \<Rightarrow> int" where
  "trunc_real x = (if x \<ge> 0 then \<lfloor>x\<rfloor> else \<lceil>x\<rceil>)"

definition clamp_sample :: "real \<Rightarrow> i16" where
  "clamp_sample x =
     (if x > 32767 then 32767
      else if x < -32768 then word_of_int (-32768)
      else word_of_int (trunc_real x))"

text \<open>One channel's contribution to the two sums of \<open>mixFrame\<close>; every channel reads
  the same frame from CPLD1, and only its left sample.\<close>

definition mix_channel :: "i16 \<times> i16 \<Rightarrow> ChannelState \<Rightarrow> real \<times> real \<Rightarrow> real \<times> real" where
  "mix_channel frame ch acc =
     (if muted ch then acc
      else
        (let sample = real_of_int (sint (fst frame)) * volume ch;
             leftGain = (if pan ch \<le> 0 then 1 else 1 - pan ch);
             rightGain = (if pan ch \<le> 0 then 1 + pan ch else 1)
         in (fst acc + sample * leftGain, snd acc + sample * rightGain)))"

text \<open>The two sums of \<open>mixFrame\<close> after the master volume, before the clamp.\<close>

definition mix_sums :: "AudioMixer \<Rightarrow> i16 \<times> i16 \<Rightarrow> real \<times> real" where
  "mix_sums m frame =
     (let acc = foldl (\<lambda>tot ch. mix_channel frame ch tot) (0, 0) (channels m)
      in (fst acc * masterVolume m, snd acc * masterVolume m))"

definition mixFrame :: "AudioMixer \<Rightarrow> i16 \<times> i16 \<Rightarrow> i16 \<times> i16" where
  "mixFrame m frame =
     (let acc = mix_sums m frame in (clamp_sample (fst acc), clamp_sample (snd acc)))"

text \<open>\<open>applyAGC\<close> takes the two samples as \<open>int16_t\<close>, that is, after
  \<open>mixFrame\<close> has clamped them.\<close>

definition applyAGC :: "AudioMixer \<Rightarrow> i16 \<times> i16 \<Rightarrow> AudioMixer \<times> i16 \<times> i16" where
  "applyAGC m lr =
     (let leftF = real_of_int (sint (fst lr));
          rightF = real_of_int (sint (snd lr));
          peak = max \<bar>leftF\<bar> \<bar>rightF\<bar>;
          m1 = m\<lparr> targetGain := (if peak > 32767 then 32767 / peak else 1) \<rparr>;
          m2 = m1\<lparr> currentGain := currentGain m1 + (targetGain m1 - currentGain m1) * (1 / 100) \<rparr>
      in (m2, clamp_sample (leftF * currentGain m2), clamp_sample (rightF * currentGain m2)))"

text \<open>
  \<open>generateSamples\<close> with an audio source attached: \<open>numFrames\<close> frames, each mixed
  from the frame CPLD1 offers (its FIFOs are not advanced in between) and passed through
  the AGC when that is enabled.  The buffer is returned as the list of stereo pairs.
\<close>

fun generateSamples :: "AudioMixer \<Rightarrow> i16 list list \<Rightarrow> nat \<Rightarrow> AudioMixer \<times> (i16 \<times> i16) list" where
  "generateSamples m fifos 0 = (m, [])"
| "generateSamples m fifos (Suc n) =
     (let lr = mixFrame m (getAudioFrame fifos);
          (m1, out) = (if autoGainControl m then applyAGC m lr else (m, lr));
          (m2, rest) = generateSamples m1 fifos n
      in (m2, out # rest))"

text \<open>Eight FIFOs whose front sample is 5000: CPLD1 offers the frame 5000, and the
  eight channels of the mixer add up to 40000 before the clamp.\<close>

definition loud_fifos :: "i16 list list" where
  "loud_fifos = replicate 8 [5000]"


section \<open>Verified properties\<close>

subsection \<open>Addresses and the cartridge window\<close>

lemma unat_flatAddr: "unat (flatAddr a) = unat (getBank a) * 65536 + unat (getOffset a)"
proof -
  have d: "push_bit 16 (ucast (getBank a) :: u32) OR ucast (getOffset a)
         = push_bit 16 (ucast (getBank a)) + ucast (getOffset a)"
    apply (rule disjunctive_add [symmetric])
    apply (auto simp: bit_simps dest: bit_imp_le_length)
    done
  have b: "unat (getBank a) < 256" using unsigned_less [of "getBank a", where 'a=nat] by simp
  have c: "unat (getOffset a) < 65536" using unsigned_less [of "getOffset a", where 'a=nat] by simp
  show ?thesis
    unfolding flatAddr_def d using b c
    apply (simp add: unat_word_ariths push_bit_eq_mult unsigned_ucast_eq take_bit_eq_mod)
    done
qed

lemma flatAddr_Address: "flatAddr (Address b off) = push_bit 16 (ucast b) OR ucast off"
  by (simp add: flatAddr_def Address_def)

lemma unat_flatAddr_less: "unat (flatAddr a) < 16777216"
proof -
  have b: "unat (getBank a) < 256" using unsigned_less [of "getBank a", where 'a=nat] by simp
  have c: "unat (getOffset a) < 65536" using unsigned_less [of "getOffset a", where 'a=nat] by simp
  show ?thesis unfolding unat_flatAddr using b c by simp
qed

lemma low_nibble_mod: "unat ((v::u8) AND 0x0F) = unat v mod 16"
proof -
  have "(v AND 0x0F) = take_bit 4 v" by (simp add: take_bit_eq_mask mask_eq_exp_minus_1)
  moreover have "unat (take_bit 4 v) = take_bit 4 (unat v)" by (rule unsigned_take_bit_eq)
  ultimately show ?thesis by (simp only: take_bit_eq_mod) simp
qed

lemma setBank_nibble: "currentBank (setBank c (v AND 0x0F)) = v AND 0x0F"
proof -
  have "unat (v AND 0x0F) < 16" unfolding low_nibble_mod by simp
  then show ?thesis by (simp add: setBank_def MAX_BANKS_def)
qed

lemma mapAddress_nat:
  assumes b: "unat (currentBank c) < 16"
    and lo: "ROM_WINDOW_START \<le> fa" and hi: "fa \<le> ROM_WINDOW_END"
  shows "unat (mapAddress c fa) = unat (currentBank c) * 4194304 + (unat fa - 12582912)"
proof -
  have lo': "12582912 \<le> unat fa" using lo by (simp add: word_le_nat_alt ROM_WINDOW_START_def)
  have hi': "unat fa \<le> 16777215" using hi by (simp add: word_le_nat_alt ROM_WINDOW_END_def)
  have s: "unat (fa - ROM_WINDOW_START) = unat fa - 12582912"
    using lo by (simp add: unat_sub ROM_WINDOW_START_def)
  have u: "unat (ucast (currentBank c) :: u32) = unat (currentBank c)"
    using b by (simp add: unsigned_ucast_eq take_bit_eq_mod)
  have m: "unat (ucast (currentBank c) * BANK_SIZE :: u32) = unat (currentBank c) * 4194304"
    using b by (simp add: unat_word_ariths u BANK_SIZE_def)
  show ?thesis
    unfolding mapAddress_def using b lo' hi'
    by (simp add: unat_word_ariths(1) m s)
qed

lemma flat_bank_register: "flatAddr (Address 0x42 0x0000) = BANK_REGISTER"
  by (simp add: flatAddr_Address BANK_REGISTER_def)

lemma window_not_low:
  assumes "ROM_WINDOW_START \<le> fa"
  shows "\<not> fa \<le> 0x00FFFF"
  using assms by (simp add: word_le_nat_alt ROM_WINDOW_START_def)

text \<open>
  Claim C4.  Storing any byte \<open>v\<close> to the bank register \<open>$420000\<close> leaves
  \<open>current_bank = v mod 16\<close> (the low nibble) and changes nothing else in the
  cartridge; afterwards a read of any address \<open>a\<close> in \<open>$C00000..$FFFFFF\<close> returns
  \<open>rom[current_bank * 4MB + (a - $C00000)]\<close> when that offset lies inside the loaded
  ROM and \<open>0xFF\<close> otherwise.
\<close>

theorem bank_register_store_then_window_read:
  "let c' = cart_storeByte c (Address 0x42 0x0000) v in
     currentBank c' = v AND 0x0F
   \<and> unat (currentBank c') = unat v mod 16
   \<and> rom c' = rom c \<and> saveRAM c' = saveRAM c \<and> header c' = header c
   \<and> (\<forall>a. ROM_WINDOW_START \<le> flatAddr a \<and> flatAddr a \<le> ROM_WINDOW_END \<longrightarrow>
         cart_readByte c' a =
           (let p = unat (currentBank c') * 4194304 + (unat (flatAddr a) - 12582912)
            in if p < length (rom c) then rom c ! p else 0xFF))"
proof -
  define c' where "c' = cart_storeByte c (Address 0x42 0x0000) v"
  have c'_eq: "c' = setBank c (v AND 0x0F)"
    by (simp add: c'_def cart_storeByte_def flat_bank_register)
  have bank: "currentBank c' = v AND 0x0F"
    unfolding c'_eq by (rule setBank_nibble)
  have bank_nat: "unat (currentBank c') = unat v mod 16"
    unfolding bank by (rule low_nibble_mod)
  have same: "rom c' = rom c" "saveRAM c' = saveRAM c" "header c' = header c"
    by (simp_all add: c'_eq setBank_def)
  have rd: "cart_readByte c' a =
           (let p = unat (currentBank c') * 4194304 + (unat (flatAddr a) - 12582912)
            in if p < length (rom c) then rom c ! p else 0xFF)"
    if lo: "ROM_WINDOW_START \<le> flatAddr a" and hi: "flatAddr a \<le> ROM_WINDOW_END" for a
  proof -
    have b16: "unat (currentBank c') < 16" unfolding bank_nat by simp
    note m = mapAddress_nat [OF b16 lo hi]
    show ?thesis
      using window_not_low [OF lo] lo hi
      by (simp add: cart_readByte_def Let_def addressInROMWindow_def m same)
  qed
  show ?thesis
    unfolding c'_def [symmetric] Let_def
    using bank bank_nat same rd unfolding Let_def by blast
qed

text \<open>A two-byte ROM: value \<open>0x10\<close> selects bank 0, value \<open>0x11\<close> selects
  bank 1, which lies beyond the image.\<close>

theorem bank_register_store_then_window_read_witness:
  "cart_readByte (cart_storeByte (new_cartridge\<lparr> rom := [0xAA, 0xBB] \<rparr>) (Address 0x42 0x0000) 0x10)
      (Address 0xC0 0x0001) = 0xBB
   \<and> cart_readByte (cart_storeByte (new_cartridge\<lparr> rom := [0xAA, 0xBB] \<rparr>) (Address 0x42 0x0000) 0x11)
      (Address 0xC0 0x0001) = 0xFF"
proof -
  have w: "ROM_WINDOW_START \<le> flatAddr (Address 0xC0 0x0001) \<and>
           flatAddr (Address 0xC0 0x0001) \<le> ROM_WINDOW_END"
    by (simp add: flatAddr_Address ROM_WINDOW_START_def ROM_WINDOW_END_def)
  have f: "unat (flatAddr (Address 0xC0 0x0001)) = 12582913"
    by (simp add: flatAddr_Address)
  show ?thesis
    using w f
      bank_register_store_then_window_read [of "new_cartridge\<lparr> rom := [0xAA, 0xBB] \<rparr>" "0x10"]
      bank_register_store_then_window_read [of "new_cartridge\<lparr> rom := [0xAA, 0xBB] \<rparr>" "0x11"]
    by (simp add: Let_def new_cartridge_def)
qed


subsection \<open>CPLD2 raster timing\<close>

lemma u16_of_nat_le: "n < 65536 \<Longrightarrow> m < 65536 \<Longrightarrow> ((of_nat n :: u16) \<le> of_nat m) = (n \<le> m)"
  by (simp add: word_le_nat_alt unat_of_nat)

lemma u16_of_nat_less: "n < 65536 \<Longrightarrow> m < 65536 \<Longrightarrow> ((of_nat n :: u16) < of_nat m) = (n < m)"
  by (simp add: word_less_nat_alt unat_of_nat)

lemma u16_cmp:
  assumes "n < 65536"
  shows "((857 :: u16) \<le> of_nat n) = (857 \<le> n)"
    and "((262 :: u16) \<le> of_nat n) = (262 \<le> n)"
    and "((of_nat n :: u16) \<le> 137) = (n \<le> 137)"
    and "((of_nat n :: u16) < 22) = (n < 22)"
  using u16_of_nat_le [of 857 n] u16_of_nat_le [of 262 n] u16_of_nat_le [of n 137]
    u16_of_nat_less [of n 22] assms by simp_all

lemma tick_raster_at:
  assumes m: "videoMode s = MODE_240P" and x: "x < 857" and l: "l < 262"
  shows "tick (raster_at x l s) =
     (if x < 856 then (raster_at (Suc x) l s, [])
      else if l < 261 then (raster_at 0 (Suc l) s, [])
      else if vblankIRQPending s then (raster_at 0 0 s, [])
      else (raster_at 0 0 (s\<lparr> vblankIRQPending := True \<rparr>),
            if vblankCallback s then [VBlankCallback] else []))"
proof -
  have x1: "(of_nat x :: u16) + 1 = of_nat (Suc x)" and l1: "(of_nat l :: u16) + 1 = of_nat (Suc l)"
    by simp_all
  have bx: "Suc x < 65536" "x < 65536" and bl: "Suc l < 65536" "l < 65536" using x l by simp_all
  note cmp = u16_cmp [OF bx(1)] u16_cmp [OF bl(1)] u16_cmp [OF bx(2)] u16_cmp [OF bl(2)]
  have t: "tick (raster_at x l s) =
     (let s1 = (raster_at x l s)\<lparr> rasterX := of_nat (Suc x) \<rparr> in
      if 857 \<le> Suc x then
        (let s2 = s1\<lparr> rasterX := 0, rasterLine := of_nat (Suc l) \<rparr> in
         if 262 \<le> Suc l then
           (let s3 = s2\<lparr> rasterLine := 0 \<rparr> in
            if \<not> vblankIRQPending s3
            then (updateBlankingFlags (s3\<lparr> vblankIRQPending := True \<rparr>),
                  if vblankCallback s3 then [VBlankCallback] else [])
            else (updateBlankingFlags s3, []))
         else (updateBlankingFlags s2, []))
      else (updateBlankingFlags s1, []))"
    using m
    by (simp add: tick_def raster_at_def Let_def PIXELS_PER_LINE_def getTotalLines_def
        LINES_PER_FRAME_240P_def x1 l1 cmp del: of_nat_Suc)
  have ub: "videoMode r = MODE_240P \<Longrightarrow> rasterX r = of_nat a \<Longrightarrow> rasterLine r = of_nat b \<Longrightarrow>
            a < 65536 \<Longrightarrow> b < 65536 \<Longrightarrow>
            updateBlankingFlags r = r\<lparr> inHBlank := (a \<le> 137), inVBlank := (b < 22) \<rparr>" for r a b
    by (simp add: updateBlankingFlags_def Let_def HBLANK_START_def HBLANK_END_def
        VBLANK_LINES_240P_def u16_cmp)
  consider (a) "x < 856" | (b) "x = 856" "l < 261" | (c) "x = 856" "l = 261"
    using x l by linarith
  then show ?thesis
  proof cases
    case a
    have "updateBlankingFlags ((raster_at x l s)\<lparr> rasterX := of_nat (Suc x) \<rparr>) = raster_at (Suc x) l s"
      using m bx bl by (subst ub [of _ "Suc x" l]) (simp_all add: raster_at_def del: of_nat_Suc)
    with a show ?thesis unfolding t by (simp del: of_nat_Suc)
  next
    case b
    have "updateBlankingFlags ((raster_at x l s)\<lparr> rasterX := 0, rasterLine := of_nat (Suc l) \<rparr>) = raster_at 0 (Suc l) s"
      using m bx bl by (subst ub [of _ 0 "Suc l"]) (simp_all add: raster_at_def del: of_nat_Suc)
    with b show ?thesis unfolding t by (simp add: raster_at_def del: of_nat_Suc)
  next
    case c
    have u0: "updateBlankingFlags ((raster_at x l s)\<lparr> rasterX := 0, rasterLine := 0 \<rparr>) = raster_at 0 0 s"
      using m by (subst ub [of _ 0 0]) (simp_all add: raster_at_def)
    have u1: "updateBlankingFlags ((raster_at x l s)\<lparr> rasterX := 0, rasterLine := 0, vblankIRQPending := True \<rparr>)
          = raster_at 0 0 (s\<lparr> vblankIRQPending := True \<rparr>)"
      using m by (subst ub [of _ 0 0]) (simp_all add: raster_at_def)
    from c show ?thesis unfolding t using u0 u1 by (simp add: raster_at_def del: of_nat_Suc)
  qed
qed

lemma ticks_add: "ticks (n + m) s = (let (s1, e1) = ticks n s; (s2, e2) = ticks m s1 in (s2, e1 @ e2))"
  by (induction n arbitrary: s) (simp_all add: Let_def split: prod.splits)

lemma ticks_snoc: "ticks (Suc n) s = (let (s1, e1) = ticks n s; (s2, e2) = tick s1 in (s2, e1 @ e2))"
  using ticks_add [of n 1 s] by (simp add: Let_def split: prod.splits)

lemma ticks_before_wrap:
  assumes m: "videoMode s = MODE_240P"
  shows "n < 224534 \<Longrightarrow> ticks n (raster_at 0 0 s) = (raster_at (n mod 857) (n div 857) s, [])"
proof (induction n)
  case 0
  show ?case by simp
next
  case (Suc n)
  have n: "n < 224534" using Suc.prems by simp
  have x: "n mod 857 < 857" by simp
  have l: "n div 857 < 262" using n by (simp add: div_less_iff_less_mult)
  have notlast: "\<not> (n mod 857 = 856 \<and> n div 857 = 261)"
  proof
    assume a: "n mod 857 = 856 \<and> n div 857 = 261"
    have "n = 857 * (n div 857) + n mod 857" by simp
    with a have "n = 224533" by simp
    with Suc.prems show False by simp
  qed
  have step: "tick (raster_at (n mod 857) (n div 857) s) = (raster_at (Suc n mod 857) (Suc n div 857) s, [])"
  proof (cases "n mod 857 < 856")
    case True
    then have "Suc n mod 857 = Suc (n mod 857)" "Suc n div 857 = n div 857"
      by (simp_all add: mod_Suc div_Suc)
    with True show ?thesis by (simp add: tick_raster_at [OF m x l])
  next
    case False
    then have e: "n mod 857 = 856" using x by linarith
    then have "Suc n mod 857 = 0" "Suc n div 857 = Suc (n div 857)"
      by (simp_all add: mod_Suc div_Suc)
    moreover have "n div 857 < 261" using notlast e l by linarith
    ultimately show ?thesis using e tick_raster_at [OF m _ l, of 856] by simp
  qed
  show ?case
    unfolding ticks_snoc using Suc.IH [OF n] step by simp
qed

lemma tick_pending:
  "vblankIRQPending s \<Longrightarrow> snd (tick s) = [] \<and> vblankIRQPending (fst (tick s))"
  by (simp add: tick_def Let_def updateBlankingFlags_def)

lemma ticks_pending:
  "vblankIRQPending s \<Longrightarrow> snd (ticks n s) = [] \<and> vblankIRQPending (fst (ticks n s))"
proof (induction n arbitrary: s)
  case 0
  then show ?case by simp
next
  case (Suc n)
  from tick_pending [OF Suc.prems] Suc.IH [of "fst (tick s)"]
  show ?case by (simp add: Let_def case_prod_beta)
qed

lemma reset_as_raster_at:
  "CPLD2_reset s = raster_at 0 0 (s\<lparr> vblankIRQPending := False, hblankIRQPending := False \<rparr>)"
  by (simp add: CPLD2_reset_def raster_at_def)

lemma ticks_full_frame:
  assumes m: "videoMode s = MODE_240P"
  shows "ticks 224534 (CPLD2_reset s) =
           (raster_at 0 0 (s\<lparr> vblankIRQPending := True, hblankIRQPending := False \<rparr>),
            if vblankCallback s then [VBlankCallback] else [])"
proof -
  let ?s = "s\<lparr> vblankIRQPending := False, hblankIRQPending := False \<rparr>"
  have m': "videoMode ?s = MODE_240P" using m by simp
  have b: "ticks 224533 (raster_at 0 0 ?s) = (raster_at 856 261 ?s, [])"
    using ticks_before_wrap [OF m', of 224533] by simp
  have t: "tick (raster_at 856 261 ?s) =
      (raster_at 0 0 (?s\<lparr> vblankIRQPending := True \<rparr>), if vblankCallback s then [VBlankCallback] else [])"
    using tick_raster_at [OF m', of 856 261] by simp
  have "ticks (Suc 224533) (raster_at 0 0 ?s) =
      (raster_at 0 0 (?s\<lparr> vblankIRQPending := True \<rparr>), if vblankCallback s then [VBlankCallback] else [])"
    unfolding ticks_snoc b using t by simp
  then show ?thesis unfolding reset_as_raster_at by (simp add: raster_at_def)
qed

text \<open>
  Claim C6.  From \<open>reset()\<close> in 240p mode with a vblank callback bound, after exactly
  \<open>PIXELS_PER_LINE * LINES_PER_FRAME_240P = 857 * 262\<close> calls of \<open>tick()\<close> the raster
  is back at line 0, pixel 0, and the vblank callback has fired exactly once: not at all
  during any shorter run, and not again however many further ticks follow, since
  \<open>vblankIRQPending\<close> stays set.
\<close>

theorem vblank_once_per_240p_frame:
  assumes m: "videoMode s = MODE_240P" and cb: "vblankCallback s"
  shows "rasterLine (fst (ticks (unat PIXELS_PER_LINE * unat LINES_PER_FRAME_240P) (CPLD2_reset s))) = 0
       \<and> rasterX (fst (ticks (unat PIXELS_PER_LINE * unat LINES_PER_FRAME_240P) (CPLD2_reset s))) = 0
       \<and> snd (ticks (unat PIXELS_PER_LINE * unat LINES_PER_FRAME_240P) (CPLD2_reset s)) = [VBlankCallback]
       \<and> (\<forall>n < unat PIXELS_PER_LINE * unat LINES_PER_FRAME_240P. snd (ticks n (CPLD2_reset s)) = [])
       \<and> (\<forall>k. snd (ticks (unat PIXELS_PER_LINE * unat LINES_PER_FRAME_240P + k) (CPLD2_reset s))
                = [VBlankCallback])"
proof -
  have N: "unat PIXELS_PER_LINE * unat LINES_PER_FRAME_240P = 224534"
    by (simp add: PIXELS_PER_LINE_def LINES_PER_FRAME_240P_def)
  note f = ticks_full_frame [OF m]
  have before: "snd (ticks n (CPLD2_reset s)) = []" if "n < 224534" for n
    unfolding reset_as_raster_at using ticks_before_wrap [OF _ that, of "s\<lparr> vblankIRQPending := False, hblankIRQPending := False \<rparr>"] m
    by simp
  have after: "snd (ticks (224534 + k) (CPLD2_reset s)) = [VBlankCallback]" for k
  proof -
    have p: "vblankIRQPending (raster_at 0 0 (s\<lparr> vblankIRQPending := True, hblankIRQPending := False \<rparr>))"
      by (simp add: raster_at_def)
    from ticks_pending [OF p, of k] show ?thesis
      unfolding ticks_add f using cb by (simp add: Let_def case_prod_beta)
  qed
  show ?thesis unfolding N using f cb before after by (simp add: raster_at_def)
qed

theorem vblank_once_per_240p_frame_witness:
  "snd (ticks (857 * 262) (CPLD2_reset (new_CPLD2\<lparr> vblankCallback := True \<rparr>))) = [VBlankCallback]
   \<and> rasterLine (fst (ticks (857 * 262) (CPLD2_reset (new_CPLD2\<lparr> vblankCallback := True \<rparr>)))) = 0
   \<and> rasterX (fst (ticks (857 * 262) (CPLD2_reset (new_CPLD2\<lparr> vblankCallback := True \<rparr>)))) = 0"
proof -
  have m: "videoMode (new_CPLD2\<lparr> vblankCallback := True \<rparr>) = MODE_240P"
    by (simp add: new_CPLD2_def CPLD2_reset_def)
  have cb: "vblankCallback (new_CPLD2\<lparr> vblankCallback := True \<rparr>)" by simp
  have N: "unat PIXELS_PER_LINE * unat LINES_PER_FRAME_240P = 857 * 262"
    by (simp add: PIXELS_PER_LINE_def LINES_PER_FRAME_240P_def)
  show ?thesis using vblank_once_per_240p_frame [OF m cb] unfolding N by simp
qed


subsection \<open>Mailboxes\<close>

lemma clear_flag_idem: "\<not> newDataFlag m \<Longrightarrow> m\<lparr> newDataFlag := False \<rparr> = m"
  by simp

lemma Mailbox_readByte_wf:
  assumes "mb_wf m"
  shows "Mailbox_readByte m a =
           Some (mb_peek m a,
                 if mb_offset m a < mb_size m then m\<lparr> newDataFlag := False \<rparr> else m)"
proof (cases "mb_offset m a < mb_size m")
  case True
  then have "unat (mb_offset m a) < length (mb_data m)"
    using assms by (simp add: mb_wf_def word_less_nat_alt)
  with True show ?thesis
    by (simp add: Mailbox_readByte_def mb_peek_def vec_get_def Let_def)
next
  case False
  then show ?thesis by (simp add: Mailbox_readByte_def mb_peek_def Let_def)
qed

lemma Mailbox_storeByte_wf:
  assumes "mb_wf m" and "mb_offset m a < mb_size m"
  shows "Mailbox_storeByte m a v =
           Some (m\<lparr> mb_data := (mb_data m)[unat (mb_offset m a) := v], newDataFlag := True \<rparr>,
                 if writeCallback m then [WriteCallback] else [])"
proof -
  have "unat (mb_offset m a) < length (mb_data m)"
    using assms by (simp add: mb_wf_def word_less_nat_alt)
  with assms(2) show ?thesis
    by (simp add: Mailbox_storeByte_def vec_set_def Let_def)
qed

lemma Mailbox_storeByte_callbacks:
  "Mailbox_storeByte m a v = Some (r, cbs) \<Longrightarrow> set cbs \<subseteq> {WriteCallback}"
  by (auto simp: Mailbox_storeByte_def Let_def split: if_splits)

lemma mb_offset_at:
  assumes "unat (flatAddr a) = unat (mb_baseAddress m) + k"
  shows "unat (mb_offset m a) = k"
proof -
  have le: "mb_baseAddress m \<le> flatAddr a" using assms by (simp add: word_le_nat_alt)
  have d: "unat (flatAddr a - mb_baseAddress m) = k" using unat_sub [OF le] assms by simp
  have k: "k < 2 ^ 24" using unat_flatAddr_less [of a] assms by simp
  have m: "(0xFFFFFF :: u32) = mask 24" by (simp add: mask_eq_exp_minus_1)
  have "unat ((flatAddr a - mb_baseAddress m) AND mask 24) = k"
    using d k by (simp add: unsigned_take_bit_eq take_bit_nat_eq_self flip: take_bit_eq_mask)
  then show ?thesis by (simp add: mb_offset_def m)
qed

text \<open>
  Claim C5.  Take a mailbox and an address \<open>k\<close> bytes above its base, \<open>k\<close> below the
  mailbox's size.  A store of \<open>v\<close> there puts \<open>v\<close> into \<open>data[k]\<close> and changes no other
  byte, sets \<open>new_data\<close>, and invokes the write callback exactly once if one is bound
  (and nothing if none is), as part of the store itself.  A following read at the address
  \<open>j\<close> bytes above the base returns \<open>data[j]\<close>, which is \<open>v\<close> when \<open>j = k\<close> and the old
  byte otherwise, and clears \<open>new_data\<close>.  The write callback is the only callback a
  mailbox ever invokes: it raises no interrupt of its own.
\<close>
theorem mailbox_write_then_read:
  assumes wf: "mb_wf m"
    and a: "unat (flatAddr a) = unat (mb_baseAddress m) + k" and k: "k < unat (mb_size m)"
    and b: "unat (flatAddr b) = unat (mb_baseAddress m) + j" and j: "j < unat (mb_size m)"
  shows "Mailbox_storeByte m a v =
           Some (m\<lparr> mb_data := (mb_data m)[k := v], newDataFlag := True \<rparr>,
                 if writeCallback m then [WriteCallback] else [])
       \<and> (mb_data m)[k := v] ! k = v
       \<and> Mailbox_readByte (m\<lparr> mb_data := (mb_data m)[k := v], newDataFlag := True \<rparr>) b =
           Some (if j = k then v else mb_data m ! j,
                 m\<lparr> mb_data := (mb_data m)[k := v], newDataFlag := False \<rparr>)
       \<and> (\<forall>m' a' v' r cbs. Mailbox_storeByte m' a' v' = Some (r, cbs)
              \<longrightarrow> set cbs \<subseteq> {WriteCallback})"
proof -
  let ?m1 = "m\<lparr> mb_data := (mb_data m)[k := v], newDataFlag := True \<rparr>"
  have ka: "unat (mb_offset m a) = k" using a by (rule mb_offset_at)
  have jb: "unat (mb_offset m b) = j" using b by (rule mb_offset_at)
  have ina: "mb_offset m a < mb_size m" using ka k by (simp add: word_less_nat_alt)
  have inb: "mb_offset m b < mb_size m" using jb j by (simp add: word_less_nat_alt)
  have lk: "k < length (mb_data m)" and lj: "j < length (mb_data m)"
    using wf k j by (simp_all add: mb_wf_def)
  have wf1: "mb_wf ?m1" using wf by (simp add: mb_wf_def)
  have off: "mb_offset ?m1 x = mb_offset m x" for x by (simp add: mb_offset_def)
  have st: "Mailbox_storeByte m a v =
              Some (?m1, if writeCallback m then [WriteCallback] else [])"
    using Mailbox_storeByte_wf [OF wf ina, of v] by (simp only: ka)
  have rb: "Mailbox_readByte ?m1 b =
      Some (if j = k then v else mb_data m ! j,
            m\<lparr> mb_data := (mb_data m)[k := v], newDataFlag := False \<rparr>)"
    using Mailbox_readByte_wf [OF wf1, of b] inb lk lj
    by (simp add: mb_peek_def off jb nth_list_update)
  have only: "\<forall>m' a' v' r cbs. Mailbox_storeByte m' a' v' = Some (r, cbs)
                   \<longrightarrow> set cbs \<subseteq> {WriteCallback}"
    using Mailbox_storeByte_callbacks by blast
  show ?thesis using st rb lk only by simp
qed

theorem mailbox_write_then_read_witness:
  "Mailbox_storeByte (setWriteCallback (new_Mailbox 0x400000 4)) (Address 0x40 0x0002) 0x5A
     = Some (\<lparr> mb_baseAddress = 0x400000, mb_size = 4, mb_data = [0, 0, 0x5A, 0],
               newDataFlag = True, busyFlag = False, writeCallback = True \<rparr>, [WriteCallback])
   \<and> Mailbox_readByte \<lparr> mb_baseAddress = 0x400000, mb_size = 4, mb_data = [0, 0, 0x5A, 0],
               newDataFlag = True, busyFlag = False, writeCallback = True \<rparr> (Address 0x40 0x0003)
     = Some (0, \<lparr> mb_baseAddress = 0x400000, mb_size = 4, mb_data = [0, 0, 0x5A, 0],
               newDataFlag = False, busyFlag = False, writeCallback = True \<rparr>)
   \<and> Mailbox_readByte \<lparr> mb_baseAddress = 0x400000, mb_size = 4, mb_data = [0, 0, 0x5A, 0],
               newDataFlag = True, busyFlag = False, writeCallback = True \<rparr> (Address 0x40 0x0002)
     = Some (0x5A, \<lparr> mb_baseAddress = 0x400000, mb_size = 4, mb_data = [0, 0, 0x5A, 0],
               newDataFlag = False, busyFlag = False, writeCallback = True \<rparr>)"
proof -
  define m where "m = setWriteCallback (new_Mailbox 0x400000 4)"
  have n4: "(4 :: nat) = Suc (Suc (Suc (Suc 0)))" by simp
  have r: "replicate 4 (0 :: u8) = [0, 0, 0, 0]" unfolding n4 by simp
  have mrec: "m = \<lparr> mb_baseAddress = 0x400000, mb_size = 4, mb_data = [0, 0, 0, 0],
               newDataFlag = False, busyFlag = False, writeCallback = True \<rparr>"
    by (simp add: m_def setWriteCallback_def new_Mailbox_def r)
  have wf: "mb_wf m" by (simp add: mb_wf_def mrec)
  have a2: "unat (flatAddr (Address 0x40 0x0002)) = unat (mb_baseAddress m) + 2"
    by (simp add: flatAddr_Address mrec)
  have a3: "unat (flatAddr (Address 0x40 0x0003)) = unat (mb_baseAddress m) + 3"
    by (simp add: flatAddr_Address mrec)
  have k2: "2 < unat (mb_size m)" and k3: "3 < unat (mb_size m)" by (simp_all add: mrec)
  note t23 = mailbox_write_then_read [OF wf a2 k2 a3 k3, of "0x5A"]
  note t22 = mailbox_write_then_read [OF wf a2 k2 a2 k2, of "0x5A"]
  have upd: "(mb_data m)[2 := 0x5A] = [0, 0, 0x5A, 0]" by (simp add: mrec numeral_2_eq_2)
  have j3: "mb_data m ! 3 = 0" by (simp add: mrec numeral_3_eq_3)
  show ?thesis
    using t23 t22 unfolding upd j3 unfolding m_def [symmetric] by (simp add: mrec)
qed


subsection \<open>The boot-copy command of mailbox A\<close>

lemma RAM_readByte_wf: "ram_wf r \<Longrightarrow> \<exists>b. RAM_readByte r a = Some b"
  by (simp add: RAM_readByte_def ram_wf_def vec_get_def Let_def word_less_nat_alt)

lemma RAM_storeByte_wf:
  "ram_wf r \<Longrightarrow> \<exists>r'. RAM_storeByte r a v = Some r' \<and> ram_wf r'"
  by (simp add: RAM_storeByte_def ram_wf_def vec_set_def Let_def word_less_nat_alt)

lemma those_map_total:
  "(\<And>x. x \<in> set xs \<Longrightarrow> \<exists>y. f x = Some y) \<Longrightarrow> \<exists>ys. those (map f xs) = Some ys"
proof (induction xs)
  case Nil
  show ?case by simp
next
  case (Cons x xs)
  from Cons.prems [of x] obtain y where y: "f x = Some y" by auto
  from Cons.IH Cons.prems obtain ys where "those (map f xs) = Some ys" by auto
  with y show ?case by simp
qed

lemma hexdump32_wf: "ram_wf r \<Longrightarrow> \<exists>bs. hexdump32 r = Some bs"
  unfolding hexdump32_def by (rule those_map_total) (rule RAM_readByte_wf)

lemma unat_ucast_u16_u32: "unat (ucast (k::u16) :: u32) = unat k"
  by (simp add: unsigned_ucast_eq take_bit_nat_eq_self_iff
      order_less_trans [OF unsigned_less [of k, where 'a=nat]])

lemma unat_u16_less: "unat (k::u16) < 65536"
  using unsigned_less [of k, where 'a=nat] by simp

lemma mask24_u16: "(ucast (k::u16) :: u32) AND 0xFFFFFF = ucast k"
proof -
  have "(0xFFFFFF :: u32) = mask 24" by (simp add: mask_eq_exp_minus_1)
  moreover have "take_bit 24 (ucast k :: u32) = ucast k"
    by (rule bit_word_eqI) (auto simp: bit_simps dest: bit_imp_le_length)
  ultimately show ?thesis by (simp add: take_bit_eq_mask)
qed

lemma flatAddr_bank40: "flatAddr (Address 0x40 k) - 0x400000 = ucast k"
proof -
  have u: "unat (flatAddr (Address 0x40 k)) = 4194304 + unat k"
    by (simp add: unat_flatAddr Address_def)
  have le: "(0x400000 :: u32) \<le> flatAddr (Address 0x40 k)"
    by (simp add: word_le_nat_alt u)
  have "unat (flatAddr (Address 0x40 k) - 0x400000) = unat (ucast k :: u32)"
    by (simp add: unat_sub [OF le] u unat_ucast_u16_u32)
  then show ?thesis by (simp add: word_unat_eq_iff)
qed

lemma flatAddr_bank0: "flatAddr (Address 0x00 k) = ucast k"
  by (simp add: flatAddr_Address)

lemma mb_offset_A: "mb_baseAddress m = 0x400000 \<Longrightarrow> mb_offset m (Address 0x40 k) = ucast k"
  by (simp add: mb_offset_def flatAddr_bank40 mask24_u16)

lemma ucast_less_u32: "((ucast (k::u16) :: u32) < n) = (unat k < unat n)"
  by (simp add: word_less_nat_alt unat_ucast_u16_u32)

lemma RAM_storeByte_bank0:
  assumes "ram_wf r" "ram_baseAddress r = 0" "ram_size r = 0x20000"
  shows "RAM_storeByte r (Address 0x00 d) v = Some (r\<lparr> ram_data := (ram_data r)[unat d := v] \<rparr>)"
proof -
  have "unat d < length (ram_data r)" using assms unat_u16_less [of d] by (simp add: ram_wf_def)
  then show ?thesis
    using assms unat_u16_less [of d]
    by (simp add: RAM_storeByte_def Let_def flatAddr_bank0 ucast_less_u32 vec_set_def
        unat_ucast_u16_u32)
qed

lemma Mailbox_readByte_consumed:
  assumes "mb_wf m" "\<not> newDataFlag m"
  shows "Mailbox_readByte m a = Some (mb_peek m a, m)"
  using Mailbox_readByte_wf [OF assms(1), of a] assms(2) by simp

lemma boot_copy_eq:
  "mb_wf mb \<Longrightarrow> \<not> newDataFlag mb \<Longrightarrow> ram_wf r \<Longrightarrow> ram_baseAddress r = 0 \<Longrightarrow>
   ram_size r = 0x20000 \<Longrightarrow>
   boot_copy k i 0x40 dest mb r =
     Some (mb, r\<lparr> ram_data := boot_image k i 0x40 dest mb (ram_data r) \<rparr>)"
proof (induction k arbitrary: i r)
  case 0
  show ?case by simp
next
  case (Suc k)
  let ?r1 = "r\<lparr> ram_data := (ram_data r)[unat (dest + i) := mb_peek mb (Address 0x40 (0x0005 + i))] \<rparr>"
  have rd: "Mailbox_readByte mb (Address 0x40 (0x0005 + i)) = Some (mb_peek mb (Address 0x40 (0x0005 + i)), mb)"
    using Suc.prems by (intro Mailbox_readByte_consumed)
  have st: "RAM_storeByte r (Address 0x00 (dest + i)) (mb_peek mb (Address 0x40 (0x0005 + i))) = Some ?r1"
    using Suc.prems by (intro RAM_storeByte_bank0)
  have wf1: "ram_wf ?r1" "ram_baseAddress ?r1 = 0" "ram_size ?r1 = 0x20000"
    using Suc.prems by (simp_all add: ram_wf_def)
  from Suc.IH [OF Suc.prems(1,2) wf1, of "i + 1"] rd st
  show ?case by simp
qed

lemma length_boot_image: "length (boot_image k i mbank dest mb d) = length d"
  by (induction k arbitrary: i d) simp_all

lemma u16_shift_inj:
  assumes "j1 < 65536" "j2 < 65536" "j1 \<noteq> j2"
  shows "unat (dest + (of_nat j1 :: u16)) \<noteq> unat (dest + of_nat j2)"
proof
  assume "unat (dest + (of_nat j1 :: u16)) = unat (dest + of_nat j2)"
  then have "dest + (of_nat j1 :: u16) = dest + of_nat j2" by (simp only: word_unat_eq_iff)
  then have "(of_nat j1 :: u16) = of_nat j2" by simp
  then have "unat (of_nat j1 :: u16) = unat (of_nat j2 :: u16)" by simp
  with assms show False by (simp add: unat_of_nat)
qed

lemma boot_image_elsewhere:
  "(\<And>j. i \<le> j \<Longrightarrow> j < i + k \<Longrightarrow> p \<noteq> unat (dest + (of_nat j :: u16))) \<Longrightarrow>
   boot_image k (of_nat i) mbank dest mb d ! p = d ! p"
proof (induction k arbitrary: i d)
  case 0
  show ?case by simp
next
  case (Suc k)
  have s: "(of_nat i :: u16) + 1 = of_nat (Suc i)" by simp
  have ne: "p \<noteq> unat (dest + (of_nat i :: u16))" using Suc.prems [of i] by simp
  have "boot_image k (of_nat (Suc i)) mbank dest mb
          (d[unat (dest + of_nat i) := mb_peek mb (Address mbank (0x0005 + of_nat i))]) ! p
        = (d[unat (dest + of_nat i) := mb_peek mb (Address mbank (0x0005 + of_nat i))]) ! p"
    by (rule Suc.IH) (use Suc.prems in simp)
  with ne show ?case by (simp add: s del: of_nat_Suc)
qed

lemma boot_image_copied:
  "i + k \<le> 65536 \<Longrightarrow> i \<le> j \<Longrightarrow> j < i + k \<Longrightarrow> unat (dest + (of_nat j :: u16)) < length d \<Longrightarrow>
   boot_image k (of_nat i) mbank dest mb d ! unat (dest + of_nat j)
     = mb_peek mb (Address mbank (0x0005 + of_nat j))"
proof (induction k arbitrary: i d)
  case 0
  then show ?case by simp
next
  case (Suc k)
  let ?d1 = "d[unat (dest + of_nat i) := mb_peek mb (Address mbank (0x0005 + of_nat i))]"
  have s: "(of_nat i :: u16) + 1 = of_nat (Suc i)" by simp
  show ?case
  proof (cases "j = i")
    case True
    have "boot_image k (of_nat (Suc i)) mbank dest mb ?d1 ! unat (dest + of_nat i)
            = ?d1 ! unat (dest + of_nat i)"
    proof (rule boot_image_elsewhere)
      fix j' assume "Suc i \<le> j'" "j' < Suc i + k"
      then show "unat (dest + (of_nat i :: u16)) \<noteq> unat (dest + of_nat j')"
        using Suc.prems(1) by (intro u16_shift_inj) simp_all
    qed
    with True Suc.prems(4) show ?thesis by (simp add: s del: of_nat_Suc)
  next
    case False
    have "boot_image k (of_nat (Suc i)) mbank dest mb ?d1 ! unat (dest + of_nat j)
            = mb_peek mb (Address mbank (0x0005 + of_nat j))"
      by (rule Suc.IH) (use Suc.prems False in simp_all)
    then show ?thesis by (simp add: s del: of_nat_Suc)
  qed
qed

lemma mb_peek_A:
  assumes "mb_baseAddress m = 0x400000" "mb_size m = 1024"
  shows "mb_peek m (Address 0x40 k) = (if unat k < 1024 then mb_data m ! unat k else 0xFF)"
  using assms by (simp add: mb_peek_def mb_offset_A ucast_less_u32 unat_ucast_u16_u32)

lemma onMailboxAWrite_boot:
  assumes s: "mailboxA_attached s" "graphicsRAM_attached s" "graphicsCPUReset_bound s"
    and m: "mb_wf mb" "mb_baseAddress mb = 0x400000" "mb_size mb = 1024"
    and r: "ram_wf ram" "ram_baseAddress ram = 0" "ram_size ram = 0x20000"
    and cmd: "mb_data mb ! 0 = 0x01"
  shows "onMailboxAWrite s mb ram =
     Some (mb\<lparr> newDataFlag := False \<rparr>,
           ram\<lparr> ram_data := boot_image (unat (le16 (mb_data mb ! 3) (mb_data mb ! 4))) 0 0x40
                                (le16 (mb_data mb ! 1) (mb_data mb ! 2))
                                (mb\<lparr> newDataFlag := False \<rparr>) (ram_data ram) \<rparr>,
           [GraphicsCPUReset False])"
proof -
  let ?mb0 = "mb\<lparr> newDataFlag := False \<rparr>"
  have m0: "mb_wf ?mb0" "\<not> newDataFlag ?mb0" "mb_baseAddress ?mb0 = 0x400000" "mb_size ?mb0 = 1024"
    using m by (simp_all add: mb_wf_def)
  have r0: "Mailbox_readByte mb (Address 0x40 0x0000) = Some (0x01, ?mb0)"
    using Mailbox_readByte_wf [OF m(1), of "Address 0x40 0x0000"] m cmd
    by (simp add: mb_peek_A mb_offset_A)
  have rk: "Mailbox_readByte ?mb0 (Address 0x40 k) = Some (mb_peek ?mb0 (Address 0x40 k), ?mb0)" for k
    by (rule Mailbox_readByte_consumed [OF m0(1,2)])
  have pk: "mb_peek ?mb0 (Address 0x40 0x0001) = mb_data mb ! 1"
       "mb_peek ?mb0 (Address 0x40 0x0002) = mb_data mb ! 2"
       "mb_peek ?mb0 (Address 0x40 0x0003) = mb_data mb ! 3"
       "mb_peek ?mb0 (Address 0x40 0x0004) = mb_data mb ! 4"
    using m0(3,4) by (simp_all add: mb_peek_A)
  let ?len = "le16 (mb_data mb ! 3) (mb_data mb ! 4)" and ?dest = "le16 (mb_data mb ! 1) (mb_data mb ! 2)"
  let ?r1 = "ram\<lparr> ram_data := boot_image (unat ?len) 0 0x40 ?dest ?mb0 (ram_data ram) \<rparr>"
  have bc: "boot_copy (unat ?len) 0 0x40 ?dest ?mb0 ram = Some (?mb0, ?r1)"
    by (rule boot_copy_eq [OF m0(1,2) r])
  have "ram_wf ?r1" using r(1) by (simp add: ram_wf_def length_boot_image)
  then obtain bs where hd: "hexdump32 ?r1 = Some bs" using hexdump32_wf by blast
  show ?thesis
    unfolding onMailboxAWrite_def using s bc hd
    by (simp add: r0 rk pk)
qed

lemma onMailboxAWrite_other:
  assumes s: "mailboxA_attached s" "graphicsRAM_attached s" "mailboxACallback s"
    and m: "mb_wf mb" "mb_baseAddress mb = 0x400000" "mb_size mb = 1024"
    and cmd: "mb_data mb ! 0 \<noteq> 0x01"
  shows "onMailboxAWrite s mb ram = Some (mb\<lparr> newDataFlag := False \<rparr>, ram, [MailboxACallback])"
proof -
  have r0: "Mailbox_readByte mb (Address 0x40 0x0000) = Some (mb_data mb ! 0, mb\<lparr> newDataFlag := False \<rparr>)"
    using Mailbox_readByte_wf [OF m(1), of "Address 0x40 0x0000"] m
    by (simp add: mb_peek_A mb_offset_A)
  show ?thesis
    unfolding onMailboxAWrite_def using s cmd by (simp add: r0)
qed

lemma initialize_wired: "gfx_boot_wired (initialize cpu0)"
  by (simp add: gfx_boot_wired_def initialize_def new_CPLD2_def CPLD2_reset_def
      setWriteCallback_def new_Mailbox_def new_RAM_def mb_wf_def ram_wf_def)

text \<open>
  Claim C1.  A byte \<open>v\<close> is written to an address inside mailbox A of a wired
  machine; \<open>mb1\<close> below is the mailbox after the store and after the handler's first
  read, which consumes \<open>new_data\<close>.  If its first byte is \<open>0x01\<close>, the handler takes
  the little-endian destination from offsets 1-2 and the length from offsets 3-4,
  stores for every \<open>j < length\<close> the byte that the mailbox returns for offset
  \<open>5 + j\<close> at offset \<open>dest + j\<close> of bank 0 of Graphics RAM (both offsets in the
  16 bits of an address; inside the 1 KB mailbox that byte is \<open>data[5 + j]\<close>),
  changes no other byte, and runs the reset-release callback: RES low, program address
  \<open>(0, 0)\<close>, IRQ untouched.  For any other first byte Graphics RAM is unchanged and
  the generic callback raises the Graphics CPU's IRQ pin.
\<close>
theorem mailboxA_boot_protocol:
  fixes e :: Emulator and addr :: address and v :: u8
  defines "mb1 \<equiv> (the (mailboxA e))\<lparr> mb_data := (mb_data (the (mailboxA e)))
                       [unat (mb_offset (the (mailboxA e)) addr) := v], newDataFlag := False \<rparr>"
  defines "dest \<equiv> le16 (mb_data mb1 ! 1) (mb_data mb1 ! 2)"
  defines "len \<equiv> le16 (mb_data mb1 ! 3) (mb_data mb1 ! 4)"
  assumes w: "gfx_boot_wired e"
    and off: "mb_offset (the (mailboxA e)) addr < mb_size (the (mailboxA e))"
  shows "(mb_data mb1 ! 0 = 0x01 \<longrightarrow>
           (\<exists>img. mailboxA_store e addr v =
                    Some (e\<lparr> graphicsCPU := Some ((the (graphicsCPU e))
                                 \<lparr> RES := False, programAddress := Address 0 0 \<rparr>),
                             graphicsRAM := Some ((the (graphicsRAM e))\<lparr> ram_data := img \<rparr>),
                             mailboxA := Some mb1 \<rparr>)
                \<and> length img = length (ram_data (the (graphicsRAM e)))
                \<and> (\<forall>j<len. img ! unat (dest + j) = mb_peek mb1 (Address 0x40 (0x0005 + j)))
                \<and> (\<forall>j<len. 5 + unat j < 1024 \<longrightarrow> img ! unat (dest + j) = mb_data mb1 ! (5 + unat j))
                \<and> (\<forall>p. (\<forall>j<len. p \<noteq> unat (dest + j)) \<longrightarrow>
                        img ! p = ram_data (the (graphicsRAM e)) ! p)))
       \<and> (mb_data mb1 ! 0 \<noteq> 0x01 \<longrightarrow>
            mailboxA_store e addr v =
              Some (e\<lparr> graphicsCPU := Some ((the (graphicsCPU e))\<lparr> IRQ := True \<rparr>),
                       mailboxA := Some mb1 \<rparr>))"
proof -
  from w obtain s mb ram c where
    parts: "cpld2 e = Some s" "mailboxA e = Some mb" "graphicsRAM e = Some ram" "graphicsCPU e = Some c"
    by (auto simp: gfx_boot_wired_def split: option.splits)
  with w have s: "mailboxA_attached s" "graphicsRAM_attached s" "graphicsCPUReset_bound s"
      "mailboxACallback s"
    and m: "writeCallback mb" "mb_wf mb" "mb_baseAddress mb = 0x400000" "mb_size mb = 1024"
    and r: "ram_wf ram" "ram_baseAddress ram = 0" "ram_size ram = 0x20000"
    by (simp_all add: gfx_boot_wired_def)
  let ?mbs = "mb\<lparr> mb_data := (mb_data mb)[unat (mb_offset mb addr) := v], newDataFlag := True \<rparr>"
  have mb1: "mb1 = ?mbs\<lparr> newDataFlag := False \<rparr>" by (simp add: mb1_def parts)
  have off': "mb_offset mb addr < mb_size mb" using off parts by simp
  have st: "Mailbox_storeByte mb addr v = Some (?mbs, [WriteCallback])"
    using Mailbox_storeByte_wf [OF m(2) off'] m(1) by simp
  have ms: "mb_wf ?mbs" "mb_baseAddress ?mbs = 0x400000" "mb_size ?mbs = 1024"
    using m by (simp_all add: mb_wf_def)
  have d1: "mb_data ?mbs = mb_data mb1" by (simp add: mb1)
  have boot: ?thesis if cmd: "mb_data mb1 ! 0 = 0x01"
  proof -
    let ?img = "boot_image (unat len) 0 0x40 dest mb1 (ram_data ram)"
    have h: "onMailboxAWrite s ?mbs ram = Some (mb1, ram\<lparr> ram_data := ?img \<rparr>, [GraphicsCPUReset False])"
      using onMailboxAWrite_boot [OF s(1,2,3) ms r] cmd
      unfolding d1 mb1 [symmetric] len_def dest_def by simp
    have res: "mailboxA_store e addr v =
        Some (e\<lparr> graphicsCPU := Some (c\<lparr> RES := False, programAddress := Address 0 0 \<rparr>),
                 graphicsRAM := Some (ram\<lparr> ram_data := ?img \<rparr>), mailboxA := Some mb1 \<rparr>)"
      by (simp add: mailboxA_store_def mailboxA_writeCallback_def parts st h
          graphicsCPUReset_lambda_def setProgramAddress_def setRESPin_def)
    have lenb: "unat len < 65536" by (rule unat_u16_less)
    have copied: "?img ! unat (dest + j) = mb_peek mb1 (Address 0x40 (0x0005 + j))" if "j < len" for j
    proof -
      have j: "unat j < unat len" using that by (simp add: word_less_nat_alt)
      have "unat (dest + j) < length (ram_data ram)"
        using r unat_u16_less [of "dest + j"] by (simp add: ram_wf_def)
      from boot_image_copied [of 0 "unat len" "unat j" dest "ram_data ram" "0x40" mb1] this j lenb
      show ?thesis by simp
    qed
    have inside: "?img ! unat (dest + j) = mb_data mb1 ! (5 + unat j)"
      if "j < len" "5 + unat j < 1024" for j
    proof -
      have "unat (0x0005 + j) = 5 + unat j"
        using that(2) unat_u16_less [of j] by (simp add: unat_word_ariths)
      then show ?thesis
        using copied [OF that(1)] that(2) ms by (simp add: mb_peek_A mb1)
    qed
    have rest: "?img ! p = ram_data ram ! p" if "\<forall>j<len. p \<noteq> unat (dest + j)" for p
    proof -
      have "boot_image (unat len) (of_nat 0) 0x40 dest mb1 (ram_data ram) ! p = ram_data ram ! p"
      proof (rule boot_image_elsewhere)
        fix j assume "0 \<le> j" "j < 0 + unat len"
        then have "(of_nat j :: u16) < len"
          using lenb by (simp add: word_less_nat_alt unat_of_nat)
        with that show "p \<noteq> unat (dest + (of_nat j :: u16))" by blast
      qed
      then show ?thesis by simp
    qed
    show ?thesis
      using cmd res copied inside rest by (auto simp: parts length_boot_image)
  qed
  have other: ?thesis if cmd: "mb_data mb1 ! 0 \<noteq> 0x01"
  proof -
    have h: "onMailboxAWrite s ?mbs ram = Some (mb1, ram, [MailboxACallback])"
      using onMailboxAWrite_other [OF s(1,2,4) ms] cmd unfolding d1 mb1 [symmetric] by simp
    have "mailboxA_store e addr v =
        Some (e\<lparr> graphicsCPU := Some (c\<lparr> IRQ := True \<rparr>), mailboxA := Some mb1 \<rparr>)"
      by (simp add: mailboxA_store_def mailboxA_writeCallback_def parts st h
          mailboxACallback_lambda_def setIRQPin_def)
    with cmd show ?thesis by (simp add: parts)
  qed
  from boot other show ?thesis by blast
qed

theorem mailboxA_boot_protocol_witness:
  "\<exists>e'. mailboxA_store boot_demo (Address 0x40 0x0007) 0xBE = Some e'
       \<and> map_option RES (graphicsCPU e') = Some False
       \<and> map_option programAddress (graphicsCPU e') = Some (Address 0 0)
       \<and> map_option IRQ (graphicsCPU e') = Some False
       \<and> map_option (\<lambda>r. map (\<lambda>i. ram_data r ! i) [0x1000, 0x1001, 0x1002]) (graphicsRAM e')
            = Some [0xDE, 0xAD, 0xBE]"
proof -
  let ?mb = "setWriteCallback ((new_Mailbox 0x400000 1024)
               \<lparr> mb_data := [0x01, 0x00, 0x10, 0x03, 0x00, 0xDE, 0xAD, 0x00] @ replicate 1016 0 \<rparr>)"
  have mbA: "mailboxA boot_demo = Some ?mb" by (simp add: boot_demo_def)
  have w: "gfx_boot_wired boot_demo"
    by (simp add: boot_demo_def gfx_boot_wired_def initialize_def new_CPLD2_def CPLD2_reset_def
        setWriteCallback_def new_Mailbox_def new_RAM_def mb_wf_def ram_wf_def)
  have o: "mb_offset ?mb (Address 0x40 0x0007) = 7"
    by (simp add: mb_offset_A setWriteCallback_def new_Mailbox_def)
  have off: "mb_offset (the (mailboxA boot_demo)) (Address 0x40 0x0007)
               < mb_size (the (mailboxA boot_demo))"
    unfolding mbA option.sel o by (simp add: setWriteCallback_def new_Mailbox_def)
  define mb1 where "mb1 = (the (mailboxA boot_demo))\<lparr> mb_data := (mb_data (the (mailboxA boot_demo)))
      [unat (mb_offset (the (mailboxA boot_demo)) (Address 0x40 0x0007)) := 0xBE], newDataFlag := False \<rparr>"
  have upd: "(a # b # c # d # e # f # g # h # tl)[7 := x] = a # b # c # d # e # f # g # x # tl"
    for a b c d e f g h x :: u8 and tl
    by (simp add: numeral_eq_Suc)
  have d1: "mb_data mb1 = 0x01 # 0x00 # 0x10 # 0x03 # 0x00 # 0xDE # 0xAD # 0xBE # replicate 1016 0"
    unfolding mb1_def mbA option.sel o
    by (simp add: setWriteCallback_def new_Mailbox_def upd)
  have c0: "mb_data mb1 ! 0 = 0x01" by (simp add: d1)
  have dest: "le16 (mb_data mb1 ! 1) (mb_data mb1 ! 2) = 0x1000"
    and len: "le16 (mb_data mb1 ! 3) (mb_data mb1 ! 4) = 3"
    by (simp_all add: d1 le16_def)
  from mailboxA_boot_protocol [OF w off, of "0xBE", folded mb1_def, THEN conjunct1, rule_format, OF c0]
  obtain img where
    st: "mailboxA_store boot_demo (Address 0x40 0x0007) 0xBE =
           Some (boot_demo\<lparr> graphicsCPU := Some ((the (graphicsCPU boot_demo))
                                 \<lparr> RES := False, programAddress := Address 0 0 \<rparr>),
                             graphicsRAM := Some ((the (graphicsRAM boot_demo))\<lparr> ram_data := img \<rparr>),
                             mailboxA := Some mb1 \<rparr>)"
    and cp: "\<forall>j<le16 (mb_data mb1 ! 3) (mb_data mb1 ! 4). 5 + unat j < 1024 \<longrightarrow>
               img ! unat (le16 (mb_data mb1 ! 1) (mb_data mb1 ! 2) + j) = mb_data mb1 ! (5 + unat j)"
    by blast
  have b0: "img ! 0x1000 = 0xDE" using cp [rule_format, of 0] unfolding dest len by (simp add: d1)
  have b1: "img ! 0x1001 = 0xAD" using cp [rule_format, of 1] unfolding dest len by (simp add: d1)
  have b2: "img ! 0x1002 = 0xBE" using cp [rule_format, of 2] unfolding dest len by (simp add: d1)
  have c: "graphicsCPU boot_demo = Some \<lparr> RES = True, RDY = True, IRQ = False,
             programAddress = Address 0xC0 0x8000 \<rparr>"
    by (simp add: boot_demo_def initialize_def setRDYPin_def)
  show ?thesis using st c b0 b1 b2 by simp
qed


subsection \<open>Machine reset\<close>

lemma mailbox_boot_rom_header:
  "loadROM new_cartridge mailbox_boot_rom =
     Some \<lparr> rom = mailbox_boot_rom, saveRAM = [], currentBank = 0,
            header = \<lparr> mainCPU_entryPoint = 0xC08000, graphicsCPU_entryPoint = 0,
                       soundCPU_entryPoint = 0, paletteData = 0, tileData = 0, audioData = 0,
                       version = 0 \<rparr> \<rparr>"
proof -
  have len: "length mailbox_boot_rom = 256" by (simp add: mailbox_boot_rom_def)
  have z: "mailbox_boot_rom ! i =
             (if i = 0 then 0x00 else if i = 1 then 0x80 else if i = 2 then 0xC0 else 0)"
    if "i < 256" for i
    using that by (auto simp: mailbox_boot_rom_def nth_append nth_Cons')
  have h: "le24 mailbox_boot_rom 0 = 0xC08000" "le24 mailbox_boot_rom 3 = 0"
    "le24 mailbox_boot_rom 6 = 0" "le24 mailbox_boot_rom 9 = 0" "le24 mailbox_boot_rom 12 = 0"
    "le24 mailbox_boot_rom 15 = 0" "mailbox_boot_rom ! 50 = 0"
    by (simp_all add: le24_def z)
  show ?thesis
    by (simp add: loadROM_def parseHeader_def new_cartridge_def len h BANK_SIZE_def MAX_BANKS_def)
qed

text \<open>
  Claim C2 asks that after \<open>reset()\<close> with a loaded ROM whose graphics (sound) entry
  point is zero, that coprocessor's RES stays asserted until its mailbox gets a boot
  command.  The code does otherwise: \<open>reset()\<close> drives the graphics CPU's RES low
  before it looks at the header, and pulses the sound CPU's RES high then low without
  looking at the entry point at all.  Evaluated on a ROM with both entry points zero,
  on CPU cores constructed with RES asserted: both coprocessors come out of
  \<open>reset()\<close> with RES released.
\<close>
theorem reset_releases_coprocessors:
  "let e = reset (fst (loadROMFromMemory (initialize cpu_in_reset) mailbox_boot_rom)) in
     map_option (\<lambda>c. graphicsCPU_entryPoint (header c)) (cartridge e) = Some 0
   \<and> map_option (\<lambda>c. soundCPU_entryPoint (header c)) (cartridge e) = Some 0
   \<and> map_option RES (graphicsCPU e) = Some False
   \<and> map_option RES (soundCPU e) = Some False"
proof -
  have l: "length mailbox_boot_rom > 0" by (simp add: mailbox_boot_rom_def)
  show ?thesis
    using l
    by (simp add: Let_def reset_def loadROMFromMemory_def initialize_def mailbox_boot_rom_header
        reset_graphicsCPU_def reset_soundCPU_def cartridge_loaded_def isLoaded_def
        setRESPin_def setRDYPin_def setProgramAddress_def cpu_in_reset_def)
qed

lemma reset_never_holds_graphicsCPU:
  "map_option RES (graphicsCPU (reset e)) =
     (if initialized e then map_option (\<lambda>_. False) (graphicsCPU e)
      else map_option RES (graphicsCPU e))"
  by (cases "graphicsCPU e")
     (simp_all add: reset_def reset_graphicsCPU_def setRESPin_def setProgramAddress_def Let_def
        split: option.splits)

lemma reset_never_holds_soundCPU:
  "map_option RES (soundCPU (reset e)) =
     (if initialized e then map_option (\<lambda>_. False) (soundCPU e)
      else map_option RES (soundCPU e))"
  by (cases "soundCPU e")
     (simp_all add: reset_def reset_soundCPU_def setRESPin_def setProgramAddress_def Let_def
        split: option.splits)

text \<open>The part of the claim about a non-zero entry point does hold for the graphics
  CPU: the program address is the entry point and RES is released.\<close>

lemma reset_graphicsCPU_entry:
  assumes "initialized e" "graphicsCPU e = Some c" "cartridge e = Some cart" "isLoaded cart"
    and "graphicsCPU_entryPoint (header cart) \<noteq> 0"
  shows "graphicsCPU (reset e) =
           Some (c\<lparr> RES := False,
                    programAddress := entry_address (graphicsCPU_entryPoint (header cart)) \<rparr>)"
  using assms
  by (simp add: reset_def reset_graphicsCPU_def cartridge_loaded_def setRESPin_def
      setProgramAddress_def Let_def)


subsection \<open>Tint\<close>

text \<open>
  Claim C8 asks for \<open>blue' = clamp(blue + tintB)\<close>.  The code computes the blue
  channel from the green one: \<open>b = clamp(int(g) + tintB)\<close>, where \<open>g\<close> already holds
  the tinted green.  On the pixel \<open>0xFF001080\<close> (red 0, green \<open>0x10\<close>, blue \<open>0x80\<close>)
  with tint \<open>(0, 0, +1)\<close> the claim gives blue \<open>0x81\<close>; the code gives \<open>0x11\<close>.
  Red and green come out as claimed.
\<close>

theorem applyTint_blue_from_green:
  "blue_of (applyTint 0xFF001080 0 0 1) = 0x11
   \<and> clamp_int (blue_of 0xFF001080 + sint (1 :: u8)) 0 255 = 0x81
   \<and> green_of (applyTint 0xFF001080 0 0 1) = clamp_int (green_of 0xFF001080 + sint (0 :: u8)) 0 255
   \<and> red_of (applyTint 0xFF001080 0 0 1) = clamp_int (red_of 0xFF001080 + sint (0 :: u8)) 0 255"
  by (simp add: applyTint_def blue_of_def green_of_def red_of_def clamp_int_def Let_def)

subsection \<open>CPLD3 table writes\<close>

lemma flat_TABLE_DATA: "flatAddr TABLE_DATA - CPLD3_base = 0x14"
  by (simp add: TABLE_DATA_def flatAddr_Address CPLD3_base_def)

lemma merge_lo_hi:
  "((((old :: u16) AND 0xFF00) OR ucast (lo :: u8)) AND 0x00FF) OR push_bit 8 (ucast (hi :: u8))
     = le16 lo hi"
proof -
  have m: "(0x00FF :: u16) = mask 8" by (simp add: mask_eq_exp_minus_1)
  have "((old AND 0xFF00) OR ucast lo) AND (mask 8 :: u16) = ucast lo"
  proof (rule bit_word_eqI)
    fix n assume "n < LENGTH(16)"
    have "(0xFF00 :: u16) = push_bit 8 0xFF" by simp
    then have h: "bit (0xFF00 :: u16) n \<Longrightarrow> 8 \<le> n"
      by (simp only: bit_push_bit_iff)
    show "bit (((old AND 0xFF00) OR ucast lo) AND (mask 8 :: u16)) n = bit (ucast lo :: u16) n"
      using h by (auto simp: bit_simps dest: bit_imp_le_length)
  qed
  then show ?thesis by (simp add: le16_def m)
qed

lemma TABLE_DATA_ignored:
  "\<not> tableAddr s < 262 \<Longrightarrow> CPLD3_storeByte s TABLE_DATA v = s"
  by (simp add: CPLD3_storeByte_def flat_TABLE_DATA Let_def)

lemma row_writes_ignored:
  "\<not> tableAddr s < 262 \<Longrightarrow> CPLD3_stores s (row_writes rows) = s"
  by (induction rows) (auto simp: TABLE_DATA_ignored)

lemma TableEntry_overwrite:
  "(e :: TableEntry)\<lparr> scrollOffset := x, paletteSelect := y \<rparr>
     = \<lparr> scrollOffset = x, paletteSelect = y \<rparr>"
  by (cases e) simp

lemma TABLE_DATA_row:
  assumes a: "tableAddr s < 262" and p: "tableByteOffset s = 0"
    and len: "length (scanlineTable s) = 262"
  shows "CPLD3_stores s [(TABLE_DATA, lo), (TABLE_DATA, hi), (TABLE_DATA, pal)] =
           s\<lparr> scanlineTable := (scanlineTable s)[unat (tableAddr s) := table_row (lo, hi, pal)],
              tableByteOffset := 0, tableAddr := tableAddr s + 1 \<rparr>"
proof -
  have True: "unat (tableAddr s) < length (scanlineTable s)"
    using a len by (simp add: word_less_nat_alt)
  let ?i = "unat (tableAddr s)"
  let ?e = "scanlineTable s ! ?i"
  let ?s1 = "s\<lparr> scanlineTable := (scanlineTable s)
                 [?i := ?e\<lparr> scrollOffset := (scrollOffset ?e AND 0xFF00) OR ucast lo \<rparr>],
               tableByteOffset := 1 \<rparr>"
  let ?s2 = "s\<lparr> scanlineTable := (scanlineTable s)
                 [?i := ?e\<lparr> scrollOffset := le16 lo hi \<rparr>],
               tableByteOffset := 2 \<rparr>"
  have w1: "CPLD3_storeByte s TABLE_DATA lo = ?s1"
    using a p by (simp add: CPLD3_storeByte_def flat_TABLE_DATA Let_def)
  have w2: "CPLD3_storeByte ?s1 TABLE_DATA hi = ?s2"
    using a True by (simp add: CPLD3_storeByte_def flat_TABLE_DATA Let_def merge_lo_hi)
  have w3: "CPLD3_storeByte ?s2 TABLE_DATA pal =
              s\<lparr> scanlineTable := (scanlineTable s)[?i := table_row (lo, hi, pal)],
                 tableByteOffset := 0, tableAddr := tableAddr s + 1 \<rparr>"
    using a True
    by (simp add: CPLD3_storeByte_def flat_TABLE_DATA Let_def table_row_def TableEntry_overwrite)
  show ?thesis by (simp add: w1 w2 w3)
qed

lemma unat_tableAddr_succ: "(a :: u16) < 262 \<Longrightarrow> unat (a + 1) = unat a + 1"
  by (simp add: word_less_nat_alt unat_word_ariths)

lemma low_byte_set:
  "(ucast (((x :: u16) AND 0xFF00) OR ucast (v :: u8)) :: u8) = v"
  "(ucast (drop_bit 8 (((x :: u16) AND 0xFF00) OR ucast (v :: u8))) :: u8) = ucast (drop_bit 8 x)"
proof -
  have e: "(0xFF00 :: u16) = push_bit 8 (mask 8)" by (simp add: mask_eq_exp_minus_1)
  have h: "bit (0xFF00 :: u16) n = (8 \<le> n \<and> n < 16)" for n
    by (subst e, simp only: bit_push_bit_iff bit_mask_iff) (auto simp: possible_bit_word)
  show "(ucast ((x AND 0xFF00) OR ucast v) :: u8) = v"
  proof (rule bit_word_eqI)
    fix n assume "n < LENGTH(8)"
    then have n: "n < 8" by simp
    have "bit (ucast ((x AND 0xFF00) OR ucast v) :: u8) n
            = (n < 8 \<and> (bit x n \<and> bit (0xFF00 :: u16) n \<or> bit v n))"
      by (simp only: bit_ucast_iff bit_or_iff bit_and_iff) (auto simp: bit_simps dest: bit_imp_le_length)
    then show "bit (ucast ((x AND 0xFF00) OR ucast v) :: u8) n = bit v n"
      using n by (simp only: h) auto
  qed
  show "(ucast (drop_bit 8 ((x AND 0xFF00) OR ucast v)) :: u8) = ucast (drop_bit 8 x)"
  proof (rule bit_word_eqI)
    fix n assume "n < LENGTH(8)"
    then have n: "n < 8" by simp
    have a: "bit (ucast (drop_bit 8 ((x AND 0xFF00) OR ucast v)) :: u8) n
            = (n < 8 \<and> (bit x (8 + n) \<and> bit (0xFF00 :: u16) (8 + n) \<or> bit (ucast v :: u16) (8 + n)))"
      by (simp only: bit_ucast_iff bit_or_iff bit_and_iff bit_drop_bit_eq)
         (auto simp: bit_simps ac_simps dest: bit_imp_le_length)
    have b: "\<not> bit (ucast v :: u16) (8 + n)"
      by (auto simp: bit_simps dest: bit_imp_le_length)
    have c: "bit (ucast (drop_bit 8 x) :: u8) n = (n < 8 \<and> bit x (8 + n))"
      by (auto simp: bit_simps ac_simps dest: bit_imp_le_length)
    have d: "bit x (8 + n) \<Longrightarrow> 8 + n < 16"
      by (auto dest: bit_imp_le_length)
    show "bit (ucast (drop_bit 8 ((x AND 0xFF00) OR ucast v)) :: u8) n = bit (ucast (drop_bit 8 x) :: u8) n"
      unfolding a c using b d by (simp only: h) auto
  qed
qed

lemma high_byte_set:
  "(ucast (((x :: u16) AND 0x00FF) OR push_bit 8 (ucast (v :: u8))) :: u8) = ucast x"
  "(ucast (drop_bit 8 (((x :: u16) AND 0x00FF) OR push_bit 8 (ucast (v :: u8)))) :: u8) = v"
proof -
  have m: "(0x00FF :: u16) = mask 8" by (simp add: mask_eq_exp_minus_1)
  show "(ucast ((x AND 0x00FF) OR push_bit 8 (ucast v)) :: u8) = ucast x"
    unfolding m
    by (rule bit_word_eqI) (auto simp: bit_simps dest: bit_imp_le_length)
  show "(ucast (drop_bit 8 ((x AND 0x00FF) OR push_bit 8 (ucast v))) :: u8) = v"
    unfolding m
    by (rule bit_word_eqI) (auto simp: bit_simps dest: bit_imp_le_length)
qed

lemma data_write_ignored:
  "262 \<le> unat (tableAddr s) \<Longrightarrow> CPLD3_stores s (data_writes vs) = s"
proof (induction vs)
  case Nil
  show ?case by (simp add: data_writes_def)
next
  case (Cons v vs)
  have "\<not> tableAddr s < 262" using Cons.prems by (simp add: word_less_nat_alt)
  then have "CPLD3_storeByte s TABLE_DATA v = s" by (rule TABLE_DATA_ignored)
  with Cons show ?case by (simp add: data_writes_def)
qed

lemma data_write_stuck:
  "3 \<le> unat (tableByteOffset s) \<Longrightarrow> CPLD3_stores s (data_writes vs) = s"
proof (induction vs)
  case Nil
  show ?case by (simp add: data_writes_def)
next
  case (Cons v vs)
  have "tableByteOffset s \<noteq> 0" "tableByteOffset s \<noteq> 1" "tableByteOffset s \<noteq> 2"
    using Cons.prems by auto
  then have "CPLD3_storeByte s TABLE_DATA v = s"
    by (simp add: CPLD3_storeByte_def flat_TABLE_DATA Let_def)
  with Cons show ?case by (simp add: data_writes_def)
qed

lemma u8_phase_cases:
  assumes "unat (p :: u8) < 3"
  obtains "p = 0" | "p = 1" | "p = 2"
proof -
  from assms have "unat p = 0 \<or> unat p = 1 \<or> unat p = 2" by linarith
  then have "p = 0 \<or> p = 1 \<or> p = 2"
    by (auto simp: word_unat_eq_iff)
  with that show ?thesis by blast
qed

lemma entry_byte_phase0:
  "entry_byte c (e\<lparr> scrollOffset := (scrollOffset e AND 0xFF00) OR ucast v \<rparr>)
     = (if c = 0 then v else entry_byte c e)"
proof -
  let ?X = "(scrollOffset e AND 0xFF00) OR ucast v"
  have a: "(ucast ?X :: u8) = v"
    and b: "(ucast (drop_bit 8 ?X) :: u8) = ucast (drop_bit 8 (scrollOffset e))"
    by (rule low_byte_set)+
  have sel: "scrollOffset (e\<lparr> scrollOffset := ?X \<rparr>) = ?X"
    "paletteSelect (e\<lparr> scrollOffset := ?X \<rparr>) = paletteSelect e"
    by simp_all
  show ?thesis unfolding entry_byte_def sel a b by simp
qed

lemma entry_byte_phase1:
  "entry_byte c (e\<lparr> scrollOffset := (scrollOffset e AND 0x00FF) OR push_bit 8 (ucast v) \<rparr>)
     = (if c = 1 then v else entry_byte c e)"
proof -
  let ?X = "(scrollOffset e AND 0x00FF) OR push_bit 8 (ucast v)"
  have a: "(ucast ?X :: u8) = ucast (scrollOffset e)"
    and b: "(ucast (drop_bit 8 ?X) :: u8) = v"
    by (rule high_byte_set)+
  have sel: "scrollOffset (e\<lparr> scrollOffset := ?X \<rparr>) = ?X"
    "paletteSelect (e\<lparr> scrollOffset := ?X \<rparr>) = paletteSelect e"
    by simp_all
  show ?thesis unfolding entry_byte_def sel a b by simp
qed

lemma entry_byte_phase2:
  "c < 3 \<Longrightarrow> entry_byte c (e\<lparr> paletteSelect := v \<rparr>) = (if c = 2 then v else entry_byte c e)"
  by (auto simp: entry_byte_def)

lemma data_write_step:
  fixes s :: CPLD3_Raster and v :: u8
  defines "s1 \<equiv> CPLD3_storeByte s TABLE_DATA v"
  assumes len: "length (scanlineTable s) = 262" and ph: "unat (tableByteOffset s) < 3"
    and q: "table_slot s < 786"
  shows "length (scanlineTable s1) = 262"
    and "unat (tableByteOffset s1) < 3"
    and "table_slot s1 = table_slot s + 1"
    and "s1 = s\<lparr> scanlineTable := scanlineTable s1, tableAddr := tableAddr s1,
                    tableByteOffset := tableByteOffset s1 \<rparr>"
    and "entry_byte (table_slot s mod 3) (scanlineTable s1 ! (table_slot s div 3)) = v"
    and "\<And>t. t \<noteq> table_slot s \<Longrightarrow>
           entry_byte (t mod 3) (scanlineTable s1 ! (t div 3))
             = entry_byte (t mod 3) (scanlineTable s ! (t div 3))"
proof -
  let ?a = "unat (tableAddr s)"
  have a: "?a < 262" using q ph by (simp add: table_slot_def)
  have lt: "tableAddr s < 262" using a by (simp add: word_less_nat_alt)
  have al: "?a < length (scanlineTable s)" using a len by simp
  have dm: "table_slot s div 3 = ?a" "table_slot s mod 3 = unat (tableByteOffset s)"
    using ph by (simp_all add: table_slot_def)
  have other: "entry_byte (t mod 3) (T ! (t div 3)) = entry_byte (t mod 3) (scanlineTable s ! (t div 3))"
    if "t \<noteq> table_slot s" and T: "T = (scanlineTable s)[?a := e]"
      and e: "\<And>c. c < 3 \<Longrightarrow> c \<noteq> unat (tableByteOffset s) \<Longrightarrow>
                entry_byte c e = entry_byte c (scanlineTable s ! ?a)"
    for t T e
  proof (cases "t div 3 = ?a")
    case True
    then have "t mod 3 \<noteq> unat (tableByteOffset s)"
      using that(1) ph unfolding table_slot_def by presburger
    moreover have "t mod 3 < 3" by simp
    ultimately show ?thesis using e [of "t mod 3"] True al by (simp add: T)
  next
    case False
    then show ?thesis by (simp add: T)
  qed
  have all: "length (scanlineTable s1) = 262 \<and> unat (tableByteOffset s1) < 3
      \<and> table_slot s1 = table_slot s + 1
      \<and> s1 = s\<lparr> scanlineTable := scanlineTable s1, tableAddr := tableAddr s1,
                    tableByteOffset := tableByteOffset s1 \<rparr>
      \<and> entry_byte (table_slot s mod 3) (scanlineTable s1 ! (table_slot s div 3)) = v
      \<and> (\<forall>t. t \<noteq> table_slot s \<longrightarrow>
           entry_byte (t mod 3) (scanlineTable s1 ! (t div 3))
             = entry_byte (t mod 3) (scanlineTable s ! (t div 3)))"
    using ph
  proof (cases rule: u8_phase_cases)
    case 1
    let ?e = "(scanlineTable s ! ?a)\<lparr> scrollOffset :=
                 (scrollOffset (scanlineTable s ! ?a) AND 0xFF00) OR ucast v \<rparr>"
    have s1: "s1 = s\<lparr> scanlineTable := (scanlineTable s)[?a := ?e], tableByteOffset := 1 \<rparr>"
      unfolding s1_def using lt 1 by (simp add: CPLD3_storeByte_def flat_TABLE_DATA Let_def)
    have g1: "length (scanlineTable s1) = 262" by (simp add: s1 len)
    have g2: "unat (tableByteOffset s1) < 3" by (simp add: s1)
    have g3: "table_slot s1 = table_slot s + 1" by (simp add: s1 table_slot_def 1)
    have g4: "s1 = s\<lparr> scanlineTable := scanlineTable s1, tableAddr := tableAddr s1,
                    tableByteOffset := tableByteOffset s1 \<rparr>" by (simp add: s1)
    have g5: "entry_byte (table_slot s mod 3) (scanlineTable s1 ! (table_slot s div 3)) = v"
      using al by (simp add: dm 1 s1 entry_byte_phase0)
    have g6: "entry_byte (t mod 3) (scanlineTable s1 ! (t div 3))
             = entry_byte (t mod 3) (scanlineTable s ! (t div 3))" if t: "t \<noteq> table_slot s" for t
    proof (rule other [OF t])
      show "scanlineTable s1 = (scanlineTable s)[?a := ?e]" by (simp add: s1)
      fix c :: nat assume "c < 3" "c \<noteq> unat (tableByteOffset s)"
      then show "entry_byte c ?e = entry_byte c (scanlineTable s ! ?a)"
        by (simp add: 1 entry_byte_phase0)
    qed
    from g1 g2 g3 g4 g5 g6 show ?thesis by blast
  next
    case 2
    let ?e = "(scanlineTable s ! ?a)\<lparr> scrollOffset :=
                 (scrollOffset (scanlineTable s ! ?a) AND 0x00FF) OR push_bit 8 (ucast v) \<rparr>"
    have s1: "s1 = s\<lparr> scanlineTable := (scanlineTable s)[?a := ?e], tableByteOffset := 2 \<rparr>"
      unfolding s1_def using lt 2 by (simp add: CPLD3_storeByte_def flat_TABLE_DATA Let_def)
    have g1: "length (scanlineTable s1) = 262" by (simp add: s1 len)
    have g2: "unat (tableByteOffset s1) < 3" by (simp add: s1)
    have g3: "table_slot s1 = table_slot s + 1" by (simp add: s1 table_slot_def 2)
    have g4: "s1 = s\<lparr> scanlineTable := scanlineTable s1, tableAddr := tableAddr s1,
                    tableByteOffset := tableByteOffset s1 \<rparr>" by (simp add: s1)
    have g5: "entry_byte (table_slot s mod 3) (scanlineTable s1 ! (table_slot s div 3)) = v"
      using al by (simp add: dm 2 s1 entry_byte_phase1)
    have g6: "entry_byte (t mod 3) (scanlineTable s1 ! (t div 3))
             = entry_byte (t mod 3) (scanlineTable s ! (t div 3))" if t: "t \<noteq> table_slot s" for t
    proof (rule other [OF t])
      show "scanlineTable s1 = (scanlineTable s)[?a := ?e]" by (simp add: s1)
      fix c :: nat assume "c < 3" "c \<noteq> unat (tableByteOffset s)"
      then show "entry_byte c ?e = entry_byte c (scanlineTable s ! ?a)"
        by (simp add: 2 entry_byte_phase1)
    qed
    from g1 g2 g3 g4 g5 g6 show ?thesis by blast
  next
    case 3
    let ?e = "(scanlineTable s ! ?a)\<lparr> paletteSelect := v \<rparr>"
    have s1: "s1 = s\<lparr> scanlineTable := (scanlineTable s)[?a := ?e], tableByteOffset := 0,
                       tableAddr := tableAddr s + 1 \<rparr>"
      unfolding s1_def using lt 3 by (simp add: CPLD3_storeByte_def flat_TABLE_DATA Let_def)
    have g1: "length (scanlineTable s1) = 262" by (simp add: s1 len)
    have g2: "unat (tableByteOffset s1) < 3" by (simp add: s1)
    have g3: "table_slot s1 = table_slot s + 1"
      by (simp add: s1 table_slot_def 3 unat_tableAddr_succ [OF lt])
    have g4: "s1 = s\<lparr> scanlineTable := scanlineTable s1, tableAddr := tableAddr s1,
                    tableByteOffset := tableByteOffset s1 \<rparr>" by (simp add: s1)
    have g5: "entry_byte (table_slot s mod 3) (scanlineTable s1 ! (table_slot s div 3)) = v"
      using al by (simp add: dm 3 s1 entry_byte_phase2)
    have g6: "entry_byte (t mod 3) (scanlineTable s1 ! (t div 3))
             = entry_byte (t mod 3) (scanlineTable s ! (t div 3))" if t: "t \<noteq> table_slot s" for t
    proof (rule other [OF t])
      show "scanlineTable s1 = (scanlineTable s)[?a := ?e]" by (simp add: s1)
      fix c :: nat assume "c < 3" "c \<noteq> unat (tableByteOffset s)"
      then show "entry_byte c ?e = entry_byte c (scanlineTable s ! ?a)"
        by (simp add: 3 entry_byte_phase2)
    qed
    from g1 g2 g3 g4 g5 g6 show ?thesis by blast
  qed
  from all show "length (scanlineTable s1) = 262" "unat (tableByteOffset s1) < 3"
    "table_slot s1 = table_slot s + 1"
    "s1 = s\<lparr> scanlineTable := scanlineTable s1, tableAddr := tableAddr s1,
                    tableByteOffset := tableByteOffset s1 \<rparr>"
    "entry_byte (table_slot s mod 3) (scanlineTable s1 ! (table_slot s div 3)) = v"
    "\<And>t. t \<noteq> table_slot s \<Longrightarrow>
           entry_byte (t mod 3) (scanlineTable s1 ! (t div 3))
             = entry_byte (t mod 3) (scanlineTable s ! (t div 3))"
    by blast+
qed

lemma data_writes_run:
  "length (scanlineTable s) = 262 \<Longrightarrow> unat (tableByteOffset s) < 3 \<Longrightarrow> table_slot s \<le> 786 \<Longrightarrow>
     length (scanlineTable (CPLD3_stores s (data_writes vs))) = 262
   \<and> unat (tableByteOffset (CPLD3_stores s (data_writes vs))) < 3
   \<and> table_slot (CPLD3_stores s (data_writes vs)) = min 786 (table_slot s + length vs)
   \<and> CPLD3_stores s (data_writes vs) =
        s\<lparr> scanlineTable := scanlineTable (CPLD3_stores s (data_writes vs)),
           tableAddr := tableAddr (CPLD3_stores s (data_writes vs)),
           tableByteOffset := tableByteOffset (CPLD3_stores s (data_writes vs)) \<rparr>
   \<and> (\<forall>i<length vs. table_slot s + i < 786 \<longrightarrow>
          entry_byte ((table_slot s + i) mod 3)
            (scanlineTable (CPLD3_stores s (data_writes vs)) ! ((table_slot s + i) div 3)) = vs ! i)
   \<and> (\<forall>t. t < table_slot s \<or> table_slot s + length vs \<le> t \<longrightarrow>
          entry_byte (t mod 3) (scanlineTable (CPLD3_stores s (data_writes vs)) ! (t div 3))
            = entry_byte (t mod 3) (scanlineTable s ! (t div 3)))"
proof (induction vs arbitrary: s)
  case Nil
  then show ?case by (simp add: data_writes_def)
next
  case (Cons v vs)
  let ?s1 = "CPLD3_storeByte s TABLE_DATA v"
  let ?s' = "CPLD3_stores ?s1 (data_writes vs)"
  have run: "CPLD3_stores s (data_writes (v # vs)) = ?s'" by (simp add: data_writes_def)
  show ?case
  proof (cases "table_slot s < 786")
    case True
    note st = data_write_step [OF Cons.prems(1,2) True, where v = v]
    have q1: "table_slot ?s1 \<le> 786" using st(3) True by simp
    note ih = Cons.IH [OF st(1) st(2) q1, unfolded st(3)]
    have c3: "table_slot ?s' = min 786 (table_slot s + length (v # vs))" using ih by simp
    have c4: "?s' = s\<lparr> scanlineTable := scanlineTable ?s', tableAddr := tableAddr ?s',
                          tableByteOffset := tableByteOffset ?s' \<rparr>"
    proof -
      from ih have "?s' = ?s1\<lparr> scanlineTable := scanlineTable ?s', tableAddr := tableAddr ?s',
                          tableByteOffset := tableByteOffset ?s' \<rparr>" by blast
      also have "\<dots> = (s\<lparr> scanlineTable := scanlineTable ?s1, tableAddr := tableAddr ?s1,
                    tableByteOffset := tableByteOffset ?s1 \<rparr>)
                 \<lparr> scanlineTable := scanlineTable ?s', tableAddr := tableAddr ?s',
                          tableByteOffset := tableByteOffset ?s' \<rparr>"
        using st(4) by simp
      also have "\<dots> = s\<lparr> scanlineTable := scanlineTable ?s', tableAddr := tableAddr ?s',
                          tableByteOffset := tableByteOffset ?s' \<rparr>" by simp
      finally show ?thesis .
    qed
    have keep: "entry_byte (t mod 3) (scanlineTable ?s' ! (t div 3))
                  = entry_byte (t mod 3) (scanlineTable ?s1 ! (t div 3))"
      if "t < table_slot s + 1 \<or> table_slot s + 1 + length vs \<le> t" for t
      using ih that by blast
    have c5: "entry_byte ((table_slot s + i) mod 3) (scanlineTable ?s' ! ((table_slot s + i) div 3))
                = (v # vs) ! i"
      if "i < length (v # vs)" "table_slot s + i < 786" for i
    proof (cases i)
      case 0
      have "entry_byte (table_slot s mod 3) (scanlineTable ?s' ! (table_slot s div 3))
              = entry_byte (table_slot s mod 3) (scanlineTable ?s1 ! (table_slot s div 3))"
        by (rule keep) simp
      with st(5) 0 show ?thesis by simp
    next
      case (Suc j)
      with that have "j < length vs" "table_slot s + 1 + j < 786" by simp_all
      with ih have "entry_byte ((table_slot s + 1 + j) mod 3)
                      (scanlineTable ?s' ! ((table_slot s + 1 + j) div 3)) = vs ! j" by blast
      with Suc show ?thesis by simp
    qed
    have c6: "entry_byte (t mod 3) (scanlineTable ?s' ! (t div 3))
                = entry_byte (t mod 3) (scanlineTable s ! (t div 3))"
      if "t < table_slot s \<or> table_slot s + length (v # vs) \<le> t" for t
    proof -
      from that have "t < table_slot s + 1 \<or> table_slot s + 1 + length vs \<le> t" by auto
      then have "entry_byte (t mod 3) (scanlineTable ?s' ! (t div 3))
                  = entry_byte (t mod 3) (scanlineTable ?s1 ! (t div 3))" by (rule keep)
      moreover have "t \<noteq> table_slot s" using that by auto
      ultimately show ?thesis using st(6) [of t] by simp
    qed
    from ih have c1: "length (scanlineTable ?s') = 262" and c2: "unat (tableByteOffset ?s') < 3"
      by blast+
    show ?thesis unfolding run using c1 c2 c3 c4 c5 c6 by blast
  next
    case False
    with Cons.prems have q: "table_slot s = 786" by simp
    then have a: "262 \<le> unat (tableAddr s)" using Cons.prems(2) by (simp add: table_slot_def)
    have "CPLD3_stores s (data_writes (v # vs)) = s" by (rule data_write_ignored [OF a])
    then show ?thesis using Cons.prems q by simp
  qed
qed

text \<open>
  Claim C9, as amended.  Take any state of the CPLD3 and any sequence of bytes written to
  TABLE_DATA.  While \<open>table_addr < 262\<close> the writes cycle through the three phases:
  the \<open>i\<close>-th byte goes to phase \<open>(phase + i) mod 3\<close> of row
  \<open>table_addr + (phase + i) div 3\<close>, where phase 0 is the low byte of the scroll offset,
  phase 1 its high byte and phase 2 the palette select; every byte of the table that no
  write addresses keeps its value, and so does every other register.  \<open>table_addr\<close>
  goes up by one on each phase-2 write \<^emph>\<open>without wrapping\<close>: it stops at 262 with the
  phase back at 0, and the bytes that would fall beyond row 261 are dropped.  Whenever
  \<open>table_addr \<ge> 262\<close> (or the phase counter is none of 0, 1, 2) the writes change
  nothing at all; in particular row 0 is not refilled.
\<close>
theorem table_data_writes:
  assumes len: "length (scanlineTable s) = 262"
  shows "(262 \<le> unat (tableAddr s) \<or> 3 \<le> unat (tableByteOffset s) \<longrightarrow>
            CPLD3_stores s (data_writes vs) = s)
   \<and> (unat (tableAddr s) < 262 \<and> unat (tableByteOffset s) < 3 \<longrightarrow>
         unat (tableAddr (CPLD3_stores s (data_writes vs)))
           = min 262 (unat (tableAddr s) + (unat (tableByteOffset s) + length vs) div 3)
       \<and> unat (tableByteOffset (CPLD3_stores s (data_writes vs)))
           = (if 262 \<le> unat (tableAddr s) + (unat (tableByteOffset s) + length vs) div 3 then 0
              else (unat (tableByteOffset s) + length vs) mod 3)
       \<and> length (scanlineTable (CPLD3_stores s (data_writes vs))) = 262
       \<and> CPLD3_stores s (data_writes vs) =
            s\<lparr> scanlineTable := scanlineTable (CPLD3_stores s (data_writes vs)),
               tableAddr := tableAddr (CPLD3_stores s (data_writes vs)),
               tableByteOffset := tableByteOffset (CPLD3_stores s (data_writes vs)) \<rparr>
       \<and> (\<forall>i<length vs. unat (tableAddr s) + (unat (tableByteOffset s) + i) div 3 < 262 \<longrightarrow>
              entry_byte ((unat (tableByteOffset s) + i) mod 3)
                (scanlineTable (CPLD3_stores s (data_writes vs))
                   ! (unat (tableAddr s) + (unat (tableByteOffset s) + i) div 3)) = vs ! i)
       \<and> (\<forall>r<262. \<forall>c<3.
              (\<forall>i<length vs. \<not> (unat (tableAddr s) + (unat (tableByteOffset s) + i) div 3 = r
                                  \<and> (unat (tableByteOffset s) + i) mod 3 = c)) \<longrightarrow>
              entry_byte c (scanlineTable (CPLD3_stores s (data_writes vs)) ! r)
                = entry_byte c (scanlineTable s ! r)))"
proof (cases "unat (tableAddr s) < 262 \<and> unat (tableByteOffset s) < 3")
  case False
  then have "262 \<le> unat (tableAddr s) \<or> 3 \<le> unat (tableByteOffset s)" by auto
  then have "CPLD3_stores s (data_writes vs) = s"
    using data_write_ignored [of s vs] data_write_stuck [of s vs] by blast
  with False show ?thesis by simp
next
  case inside: True
  then have True: "unat (tableAddr s) < 262" and ph: "unat (tableByteOffset s) < 3" by simp_all
  define a where "a = unat (tableAddr s)"
  define p where "p = unat (tableByteOffset s)"
  define n where "n = length vs"
  define s' where "s' = CPLD3_stores s (data_writes vs)"
  define a' where "a' = unat (tableAddr s')"
  define p' where "p' = unat (tableByteOffset s')"
  have a: "a < 262" and p: "p < 3" using True ph by (simp_all add: a_def p_def)
  have Q: "table_slot s = 3 * a + p" by (simp add: table_slot_def a_def p_def)
  have Qle: "table_slot s \<le> 786" using a p unfolding Q by simp
  note run = data_writes_run [OF len ph Qle, of vs, folded s'_def n_def, unfolded Q]
  have p'3: "p' < 3" using run by (simp add: p'_def)
  have slot': "3 * a' + p' = min 786 (3 * a + p + n)"
    using run by (simp add: table_slot_def a'_def p'_def)
  have dm: "(3 * a + p + i) div 3 = a + (p + i) div 3" "(3 * a + p + i) mod 3 = (p + i) mod 3" for i
    using div_mult_self4 [of 3 a "p + i"] mod_mult_self4 [of 3 a "p + i"]
    by (simp_all add: add.assoc)
  have dm': "(3 * a' + p') div 3 = a'" "(3 * a' + p') mod 3 = p'"
    using p'3 by simp_all
  have c12: "a' = min 262 (a + (p + n) div 3)
           \<and> p' = (if 262 \<le> a + (p + n) div 3 then 0 else (p + n) mod 3)"
  proof (cases "786 \<le> 3 * a + p + n")
    case True
    then have "3 * a' + p' = 786" using slot' by simp
    then have e: "a' = 262" "p' = 0" using p'3 by arith+
    have "786 div 3 \<le> (3 * a + p + n) div 3" using True by (rule div_le_mono)
    then have "262 \<le> a + (p + n) div 3" unfolding dm by simp
    with e show ?thesis by simp
  next
    case False
    then have "3 * a' + p' = 3 * a + p + n" using slot' by simp
    then have "(3 * a' + p') div 3 = (3 * a + p + n) div 3"
              "(3 * a' + p') mod 3 = (3 * a + p + n) mod 3" by simp_all
    then have e: "a' = a + (p + n) div 3" "p' = (p + n) mod 3" unfolding dm dm' by simp_all
    have "a + (p + n) div 3 < 262"
    proof (rule ccontr)
      assume "\<not> a + (p + n) div 3 < 262"
      then have "262 \<le> (3 * a + p + n) div 3" unfolding dm by simp
      then have "3 * 262 \<le> 3 * ((3 * a + p + n) div 3)" by simp
      also have "\<dots> \<le> 3 * a + p + n" by simp
      finally show False using False by simp
    qed
    with e show ?thesis by simp
  qed
  have c1: "a' = min 262 (a + (p + n) div 3)" using c12 by blast
  have c2: "p' = (if 262 \<le> a + (p + n) div 3 then 0 else (p + n) mod 3)" using c12 by blast
  have c3: "length (scanlineTable s') = 262" using run by blast
  have c4: "s' = s\<lparr> scanlineTable := scanlineTable s', tableAddr := tableAddr s',
                      tableByteOffset := tableByteOffset s' \<rparr>" using run by blast
  have c5: "entry_byte ((p + i) mod 3) (scanlineTable s' ! (a + (p + i) div 3)) = vs ! i"
    if "i < n" "a + (p + i) div 3 < 262" for i
  proof -
    have "(3 * a + p + i) div 3 < 262" using that(2) unfolding dm .
    then have "3 * a + p + i < 786" by arith
    with run that(1) have "entry_byte ((3 * a + p + i) mod 3)
        (scanlineTable s' ! ((3 * a + p + i) div 3)) = vs ! i" by blast
    then show ?thesis by (simp only: dm)
  qed
  have c6: "entry_byte c (scanlineTable s' ! r) = entry_byte c (scanlineTable s ! r)"
    if "r < 262" "c < 3" and none: "\<forall>i<n. \<not> (a + (p + i) div 3 = r \<and> (p + i) mod 3 = c)" for r c
  proof -
    let ?t = "3 * r + c"
    have tdm: "?t div 3 = r" "?t mod 3 = c" using that(2) by simp_all
    have "?t < 3 * a + p \<or> 3 * a + p + n \<le> ?t"
    proof (rule ccontr)
      assume "\<not> (?t < 3 * a + p \<or> 3 * a + p + n \<le> ?t)"
      then have lo: "3 * a + p \<le> ?t" and hi: "?t < 3 * a + p + n" by simp_all
      define i where "i = ?t - (3 * a + p)"
      have i: "i < n" "?t = 3 * a + p + i" using lo hi by (simp_all add: i_def)
      have "a + (p + i) div 3 = r" "(p + i) mod 3 = c"
        using tdm unfolding i(2) dm by simp_all
      with none i(1) show False by blast
    qed
    with run have "entry_byte (?t mod 3) (scanlineTable s' ! (?t div 3))
                    = entry_byte (?t mod 3) (scanlineTable s ! (?t div 3))" by blast
    then show ?thesis by (simp only: tdm)
  qed
  have c5': "\<forall>i<n. a + (p + i) div 3 < 262 \<longrightarrow>
               entry_byte ((p + i) mod 3) (scanlineTable s' ! (a + (p + i) div 3)) = vs ! i"
    using c5 by blast
  have c6': "\<forall>r<262. \<forall>c<3. (\<forall>i<n. \<not> (a + (p + i) div 3 = r \<and> (p + i) mod 3 = c)) \<longrightarrow>
               entry_byte c (scanlineTable s' ! r) = entry_byte c (scanlineTable s ! r)"
    using c6 by blast
  have na: "\<not> 262 \<le> a" "\<not> 3 \<le> p" using a p by simp_all
  have final: "(262 \<le> a \<or> 3 \<le> p \<longrightarrow> s' = s)
     \<and> (a < 262 \<and> p < 3 \<longrightarrow>
          a' = min 262 (a + (p + n) div 3)
        \<and> p' = (if 262 \<le> a + (p + n) div 3 then 0 else (p + n) mod 3)
        \<and> length (scanlineTable s') = 262
        \<and> s' = s\<lparr> scanlineTable := scanlineTable s', tableAddr := tableAddr s',
                    tableByteOffset := tableByteOffset s' \<rparr>
        \<and> (\<forall>i<n. a + (p + i) div 3 < 262 \<longrightarrow>
               entry_byte ((p + i) mod 3) (scanlineTable s' ! (a + (p + i) div 3)) = vs ! i)
        \<and> (\<forall>r<262. \<forall>c<3. (\<forall>i<n. \<not> (a + (p + i) div 3 = r \<and> (p + i) mod 3 = c)) \<longrightarrow>
               entry_byte c (scanlineTable s' ! r) = entry_byte c (scanlineTable s ! r)))"
    using na c1 c2 c3 c4 c5' c6' by (intro conjI impI) (simp_all only: simp_thms)
  show ?thesis
    using final unfolding a'_def p'_def s'_def a_def p_def n_def .
qed

lemma flat_TABLE_ADDR:
  "flatAddr TABLE_ADDR_LO - CPLD3_base = 0x12" "flatAddr TABLE_ADDR_HI - CPLD3_base = 0x13"
  by (simp_all add: TABLE_ADDR_LO_def TABLE_ADDR_HI_def flatAddr_Address CPLD3_base_def)

lemma new_CPLD3_fields:
  "scanlineTable new_CPLD3 = replicate 262 \<lparr> scrollOffset = 0, paletteSelect = 0 \<rparr>"
  "tableAddr new_CPLD3 = 0" "tableByteOffset new_CPLD3 = 0"
  by (simp_all add: new_CPLD3_def CPLD3_reset_def)

lemma set_table_addr:
  "CPLD3_stores s [(TABLE_ADDR_LO, lo), (TABLE_ADDR_HI, hi)] =
     s\<lparr> tableAddr := (((tableAddr s AND 0xFF00) OR ucast lo) AND 0x00FF)
                        OR push_bit 8 (ucast (hi AND 0x01)),
        tableByteOffset := 0 \<rparr>"
  by (simp add: CPLD3_storeByte_def flat_TABLE_ADDR Let_def)

lemma at_row_fields:
  "tableAddr (at_row lo hi) = le16 lo (hi AND 0x01)"
  "tableByteOffset (at_row lo hi) = 0"
  "scanlineTable (at_row lo hi) = replicate 262 \<lparr> scrollOffset = 0, paletteSelect = 0 \<rparr>"
  unfolding at_row_def set_table_addr
  using merge_lo_hi [of "tableAddr new_CPLD3" lo "hi AND 0x01"]
  by (simp_all add: new_CPLD3_fields)

lemma entry_bytes_eq:
  assumes "entry_byte 0 e = a" "entry_byte 1 e = b" "entry_byte 2 e = c"
  shows "e = \<lparr> scrollOffset = le16 a b, paletteSelect = c \<rparr>"
proof -
  have w: "ucast (ucast x :: u8) OR push_bit 8 (ucast (ucast (drop_bit 8 x) :: u8)) = x" for x :: u16
    by (rule bit_word_eqI) (auto simp: bit_simps dest: bit_imp_le_length)
  obtain x y where e: "e = \<lparr> scrollOffset = x, paletteSelect = y \<rparr>" by (cases e) simp
  show ?thesis using assms unfolding e by (auto simp: entry_byte_def le16_def w)
qed

lemma CPLD3_storeByte_inv:
  assumes "length (scanlineTable s) = 262" "unat (tableByteOffset s) < 3"
  shows "length (scanlineTable (CPLD3_storeByte s a v)) = 262
       \<and> unat (tableByteOffset (CPLD3_storeByte s a v)) < 3"
proof -
  have "tableByteOffset s = 0 \<or> tableByteOffset s = 1 \<or> tableByteOffset s = 2"
    by (rule u8_phase_cases [OF assms(2)]) simp_all
  then show ?thesis using assms(1)
    by (auto simp: CPLD3_storeByte_def Let_def)
qed

lemma CPLD3_stores_inv:
  "length (scanlineTable s) = 262 \<Longrightarrow> unat (tableByteOffset s) < 3 \<Longrightarrow>
     length (scanlineTable (CPLD3_stores s ws)) = 262
   \<and> unat (tableByteOffset (CPLD3_stores s ws)) < 3"
proof (induction ws arbitrary: s)
  case Nil
  then show ?case by simp
next
  case (Cons w ws)
  obtain a v where w: "w = (a, v)" by (cases w)
  note i = CPLD3_storeByte_inv [OF Cons.prems, of a v]
  show ?case unfolding w using Cons.IH [OF i [THEN conjunct1] i [THEN conjunct2]] by simp
qed

lemma CPLD3_reachable_inv:
  "length (scanlineTable (CPLD3_stores new_CPLD3 ws)) = 262
   \<and> unat (tableByteOffset (CPLD3_stores new_CPLD3 ws)) < 3"
  by (rule CPLD3_stores_inv) (simp_all add: new_CPLD3_fields)

text \<open>
  Claim C9 as written has \<open>table_addr\<close> wrap to 0 at 262 so that further writes
  refill the table from row 0.  With the row index set to 261, one row of data leaves
  \<open>table_addr = 262\<close>, and a second row changes nothing at all.
\<close>
theorem table_addr_stops_at_262:
  "tableAddr (CPLD3_stores (at_row 0x05 0x01) (row_writes [(1, 2, 3)])) = 262
   \<and> tableAddr (CPLD3_stores (at_row 0x05 0x01) (row_writes [(1, 2, 3)])) \<noteq> 0
   \<and> CPLD3_stores (at_row 0x05 0x01) (row_writes [(1, 2, 3), (7, 8, 9)])
        = CPLD3_stores (at_row 0x05 0x01) (row_writes [(1, 2, 3)])
   \<and> scanlineTable (CPLD3_stores (at_row 0x05 0x01) (row_writes [(1, 2, 3), (7, 8, 9)])) ! 0
        = \<lparr> scrollOffset = 0, paletteSelect = 0 \<rparr>"
proof -
  have a: "tableAddr (at_row 0x05 0x01) = 261" by (simp add: at_row_fields le16_def)
  have lt: "tableAddr (at_row 0x05 0x01) < 262" unfolding a by simp
  have len: "length (scanlineTable (at_row 0x05 0x01)) = 262" by (simp add: at_row_fields)
  note r = TABLE_DATA_row [OF lt at_row_fields(2) len]
  have s1: "CPLD3_stores (at_row 0x05 0x01) (row_writes [(1, 2, 3)]) =
            (at_row 0x05 0x01)\<lparr> scanlineTable := (scanlineTable (at_row 0x05 0x01))
                [261 := table_row (1, 2, 3)], tableByteOffset := 0, tableAddr := 262 \<rparr>"
    using r [of 1 2 3] by (simp add: a)
  have ign: "CPLD3_stores (CPLD3_stores (at_row 0x05 0x01) (row_writes [(1, 2, 3)]))
               (row_writes [(7, 8, 9)]) = CPLD3_stores (at_row 0x05 0x01) (row_writes [(1, 2, 3)])"
    unfolding s1 by (rule row_writes_ignored) simp
  have s2: "CPLD3_stores (at_row 0x05 0x01) (row_writes [(1, 2, 3), (7, 8, 9)])
              = CPLD3_stores (at_row 0x05 0x01) (row_writes [(1, 2, 3)])"
    using ign by simp
  show ?thesis unfolding s2 unfolding s1 by (simp add: at_row_fields)
qed

theorem table_data_writes_witness:
  "unat (tableAddr (CPLD3_stores (at_row 0x04 0x01) (data_writes [1]))) = 260
   \<and> unat (tableByteOffset (CPLD3_stores (at_row 0x04 0x01) (data_writes [1]))) = 1
   \<and> scanlineTable (CPLD3_stores (at_row 0x04 0x01) (data_writes [1])) ! 260
        = \<lparr> scrollOffset = 0x0001, paletteSelect = 0 \<rparr>
   \<and> unat (tableAddr (CPLD3_stores (CPLD3_stores (at_row 0x04 0x01) (data_writes [1]))
                          (data_writes [2, 3, 4]))) = 261
   \<and> unat (tableByteOffset (CPLD3_stores (CPLD3_stores (at_row 0x04 0x01) (data_writes [1]))
                                (data_writes [2, 3, 4]))) = 1
   \<and> scanlineTable (CPLD3_stores (CPLD3_stores (at_row 0x04 0x01) (data_writes [1]))
                       (data_writes [2, 3, 4])) ! 260
        = \<lparr> scrollOffset = 0x0201, paletteSelect = 3 \<rparr>
   \<and> scanlineTable (CPLD3_stores (CPLD3_stores (at_row 0x04 0x01) (data_writes [1]))
                       (data_writes [2, 3, 4])) ! 261
        = \<lparr> scrollOffset = 0x0004, paletteSelect = 0 \<rparr>
   \<and> scanlineTable (CPLD3_stores (CPLD3_stores (at_row 0x04 0x01) (data_writes [1]))
                       (data_writes [2, 3, 4])) ! 0
        = \<lparr> scrollOffset = 0, paletteSelect = 0 \<rparr>"
proof -
  define s0 where "s0 = at_row 0x04 0x01"
  define s1 where "s1 = CPLD3_stores s0 (data_writes [1])"
  define s2 where "s2 = CPLD3_stores s1 (data_writes [2, 3, 4])"
  have a0: "unat (tableAddr s0) = 260" and p0: "unat (tableByteOffset s0) = 0"
    and len0: "length (scanlineTable s0) = 262"
    by (simp_all add: s0_def at_row_fields le16_def)
  have z: "entry_byte c (scanlineTable s0 ! r) = 0" if "r < 262" for r c
    using that by (simp add: s0_def at_row_fields entry_byte_def)
  have ph0: "unat (tableByteOffset s0) < 3" using p0 by simp
  have lt0: "unat (tableAddr s0) < 262" using a0 by simp
  note t1 = table_data_writes [OF len0, of "[1]", folded s1_def, THEN conjunct2,
      rule_format, OF conjI [OF lt0 ph0], unfolded a0 p0]
  have a1: "unat (tableAddr s1) = 260" and p1: "unat (tableByteOffset s1) = 1"
    and len1: "length (scanlineTable s1) = 262"
    using t1 by simp_all
  have w1: "entry_byte ((0 + i) mod 3) (scanlineTable s1 ! (260 + (0 + i) div 3)) = [1] ! i"
    if "i < length [1 :: u8]" "260 + (0 + i) div 3 < 262" for i
    using t1 that by blast
  have k1: "entry_byte c (scanlineTable s1 ! r) = entry_byte c (scanlineTable s0 ! r)"
    if "r < 262" "c < 3"
       "\<forall>i<length [1 :: u8]. \<not> (260 + (0 + i) div 3 = r \<and> (0 + i) mod 3 = c)" for r c
    using t1 that by blast
  have b1_0: "entry_byte 0 (scanlineTable s1 ! 260) = 1" using w1 [of 0] by simp
  have b1_1: "entry_byte 1 (scanlineTable s1 ! 260) = 0" using k1 [of 260 1] z [of 260 1] by simp
  have b1_2: "entry_byte 2 (scanlineTable s1 ! 260) = 0" using k1 [of 260 2] z [of 260 2] by simp
  have r1_260: "scanlineTable s1 ! 260 = \<lparr> scrollOffset = 0x0001, paletteSelect = 0 \<rparr>"
    using entry_bytes_eq [OF b1_0 b1_1 b1_2] by (simp add: le16_def)
  have n1_261: "entry_byte c (scanlineTable s1 ! 261) = 0" if "c < 3" for c
    using k1 [of 261 c] z [of 261 c] that by simp
  have n1_0: "entry_byte c (scanlineTable s1 ! 0) = 0" if "c < 3" for c
    using k1 [of 0 c] z [of 0 c] that by simp
  have ph1: "unat (tableByteOffset s1) < 3" using p1 by simp
  have lt1: "unat (tableAddr s1) < 262" using a1 by simp
  note t2 = table_data_writes [OF len1, of "[2, 3, 4]", folded s2_def, THEN conjunct2,
      rule_format, OF conjI [OF lt1 ph1], unfolded a1 p1]
  have a2: "unat (tableAddr s2) = 261" and p2: "unat (tableByteOffset s2) = 1"
    using t2 by simp_all
  have w2: "entry_byte ((1 + i) mod 3) (scanlineTable s2 ! (260 + (1 + i) div 3)) = [2, 3, 4] ! i"
    if "i < length [2, 3, 4 :: u8]" "260 + (1 + i) div 3 < 262" for i
    using t2 that by blast
  have k2: "entry_byte c (scanlineTable s2 ! r) = entry_byte c (scanlineTable s1 ! r)"
    if "r < 262" "c < 3"
       "\<forall>i<length [2, 3, 4 :: u8]. \<not> (260 + (1 + i) div 3 = r \<and> (1 + i) mod 3 = c)" for r c
    using t2 that by blast
  have all3: "(\<forall>i<length [2, 3, 4 :: u8]. P i) = (P 0 \<and> P (Suc 0) \<and> P (Suc (Suc 0)))" for P
    by (auto simp: less_Suc_eq)
  have q: "\<forall>i<length [2, 3, 4 :: u8]. \<not> (260 + (1 + i) div 3 = r \<and> (1 + i) mod 3 = c)"
    if "(r, c) \<notin> {(260, 1), (260, 2), (261, 0)}" for r c :: nat
    unfolding all3 using that by auto
  have b2_0: "entry_byte 0 (scanlineTable s2 ! 260) = 1"
    using k2 [OF _ _ q, of 260 0] b1_0 by simp
  have b2_1: "entry_byte 1 (scanlineTable s2 ! 260) = 2" using w2 [of 0] by simp
  have b2_2: "entry_byte 2 (scanlineTable s2 ! 260) = 3" using w2 [of 1] by (simp add: numeral_2_eq_2)
  have c2_0: "entry_byte 0 (scanlineTable s2 ! 261) = 4" using w2 [of 2] by simp
  have c2_1: "entry_byte 1 (scanlineTable s2 ! 261) = 0"
    using k2 [OF _ _ q, of 261 1] n1_261 [of 1] by simp
  have c2_2: "entry_byte 2 (scanlineTable s2 ! 261) = 0"
    using k2 [OF _ _ q, of 261 2] n1_261 [of 2] by simp
  have d2: "entry_byte c (scanlineTable s2 ! 0) = 0" if "c < 3" for c
    using k2 [OF _ _ q, of 0 c] n1_0 [of c] that by simp
  have r2_260: "scanlineTable s2 ! 260 = \<lparr> scrollOffset = 0x0201, paletteSelect = 3 \<rparr>"
    using entry_bytes_eq [OF b2_0 b2_1 b2_2] by (simp add: le16_def)
  have r2_261: "scanlineTable s2 ! 261 = \<lparr> scrollOffset = 0x0004, paletteSelect = 0 \<rparr>"
    using entry_bytes_eq [OF c2_0 c2_1 c2_2] by (simp add: le16_def)
  have r2_0: "scanlineTable s2 ! 0 = \<lparr> scrollOffset = 0, paletteSelect = 0 \<rparr>"
    using entry_bytes_eq [OF d2 [of 0] d2 [of 1] d2 [of 2]] by (simp add: le16_def)
  show ?thesis
    using a1 p1 r1_260 a2 p2 r2_260 r2_261 r2_0
    unfolding s2_def s1_def s0_def by (intro conjI)
qed


subsection \<open>Memory bus dispatch\<close>

lemma mapDevice_region:
  "mapDevice regs dev base sz =
     (case region_of (dev, base, sz) of
        None \<Rightarrow> regs
      | Some r \<Rightarrow> sort_key (\<lambda>r. unat (baseAddress r)) (regs @ [r]))"
  by (simp add: mapDevice_def region_of_def split: option.splits)

lemma set_mapAll: "set (mapAll regs reqs) = set regs \<union> set (registered reqs)"
proof (induction reqs arbitrary: regs)
  case Nil
  show ?case by (simp add: registered_def map_filter_simps)
next
  case (Cons q reqs)
  obtain dev base sz where q: "q = (dev, base, sz)" by (cases q)
  show ?case
    unfolding q mapAll.simps Cons.IH
    by (cases "region_of (dev, base, sz)")
       (auto simp: mapDevice_region registered_def map_filter_simps)
qed

lemma sorted_mapAll:
  "sorted (map (\<lambda>r. unat (baseAddress r)) regs) \<Longrightarrow>
   sorted (map (\<lambda>r. unat (baseAddress r)) (mapAll regs reqs))"
proof (induction reqs arbitrary: regs)
  case Nil
  then show ?case by simp
next
  case (Cons q reqs)
  obtain dev base sz where q: "q = (dev, base, sz)" by (cases q)
  have "sorted (map (\<lambda>r. unat (baseAddress r)) (mapDevice regs dev base sz))"
    using Cons.prems by (cases "region_of (dev, base, sz)") (simp_all add: mapDevice_region)
  then show ?case unfolding q mapAll.simps by (rule Cons.IH)
qed

lemma findDevice_sorted:
  "sorted (map (\<lambda>r. unat (baseAddress r)) rs) \<Longrightarrow>
   findDevice rs a = map_option device (find (\<lambda>r. claims r a) rs)"
proof (induction rs)
  case Nil
  show ?case by simp
next
  case (Cons r rs)
  have s: "sorted (map (\<lambda>r. unat (baseAddress r)) rs)" using Cons.prems by simp
  show ?case
  proof (cases "claims r a")
    case True
    then show ?thesis by (simp add: claims_def)
  next
    case False
    show ?thesis
    proof (cases "a < baseAddress r")
      case True
      have "\<not> claims r' a" if "r' \<in> set rs" for r'
      proof -
        have "unat (baseAddress r) \<le> unat (baseAddress r')" using Cons.prems that by auto
        with True show ?thesis by (simp add: claims_def word_le_nat_alt word_less_nat_alt)
      qed
      then have "find (\<lambda>r. claims r a) rs = None" by (simp add: find_None_iff)
      with True False show ?thesis by (simp add: claims_def)
    next
      case nl: False
      with False Cons.IH [OF s] show ?thesis by (simp add: claims_def)
    qed
  qed
qed

lemma find_least:
  "sorted (map f rs) \<Longrightarrow> find P rs = Some r \<Longrightarrow>
   r \<in> set rs \<and> P r \<and> (\<forall>r' \<in> set rs. P r' \<longrightarrow> f r \<le> f r')"
proof (induction rs)
  case Nil
  then show ?case by simp
next
  case (Cons x rs)
  show ?case
  proof (cases "P x")
    case True
    with Cons.prems show ?thesis by auto
  next
    case False
    with Cons.prems have "find P rs = Some r" "sorted (map f rs)" by simp_all
    with Cons.IH have "r \<in> set rs \<and> P r \<and> (\<forall>r' \<in> set rs. P r' \<longrightarrow> f r \<le> f r')" by blast
    with False show ?thesis by auto
  qed
qed

lemma bus_findDevice:
  "findDevice (mapAll [] reqs) a = map_option device (find (\<lambda>r. claims r a) (mapAll [] reqs))"
  by (rule findDevice_sorted) (rule sorted_mapAll, simp)

text \<open>
  Claim C3, as amended.  For every address \<open>a\<close> (masked to 24 bits) and every bus
  built by mapping devices in some order: if no mapped region claims \<open>a\<close>, a read
  gives \<open>0xFF\<close> and a write is dropped; otherwise both go to a claiming device whose
  base address is the least among the claimants, whatever the registration order.  Where
  at most one mapped region claims \<open>a\<close>, that is the first registered claimant, as
  the claim has it.
\<close>
theorem bus_dispatch_lowest_base:
  "((\<forall>r \<in> set (registered reqs). \<not> claims r (a AND 0xFFFFFF)) \<longrightarrow>
       bus_read (mapAll [] reqs) dev_read a st = (0xFF, st)
     \<and> bus_write (mapAll [] reqs) dev_write a v st = st)
   \<and> ((\<exists>r \<in> set (registered reqs). claims r (a AND 0xFFFFFF)) \<longrightarrow>
       (\<exists>r \<in> set (registered reqs).
           claims r (a AND 0xFFFFFF)
         \<and> (\<forall>r' \<in> set (registered reqs). claims r' (a AND 0xFFFFFF)
                \<longrightarrow> baseAddress r \<le> baseAddress r')
         \<and> bus_read (mapAll [] reqs) dev_read a st = dev_read (device r) (a AND 0xFFFFFF) st
         \<and> bus_write (mapAll [] reqs) dev_write a v st
              = dev_write (device r) (a AND 0xFFFFFF) v st))
   \<and> ((\<forall>r \<in> set (registered reqs). \<forall>r' \<in> set (registered reqs).
          claims r (a AND 0xFFFFFF) \<and> claims r' (a AND 0xFFFFFF) \<longrightarrow> r = r') \<longrightarrow>
        findDevice (mapAll [] reqs) (a AND 0xFFFFFF)
          = first_registered_claimant reqs (a AND 0xFFFFFF))"
proof -
  let ?a = "a AND 0xFFFFFF"
  let ?bus = "mapAll [] reqs"
  let ?f = "\<lambda>r :: 'a MappedRegion. unat (baseAddress r)"
  have set_eq: "set ?bus = set (registered reqs)" by (simp add: set_mapAll)
  have srt: "sorted (map ?f ?bus)" by (rule sorted_mapAll) simp
  note fd = bus_findDevice [of reqs ?a]
  have none: "bus_read ?bus dev_read a st = (0xFF, st) \<and> bus_write ?bus dev_write a v st = st"
    if "\<forall>r \<in> set (registered reqs). \<not> claims r ?a"
  proof -
    from that have "find (\<lambda>r. claims r ?a) ?bus = None" by (simp add: find_None_iff set_eq)
    then show ?thesis by (simp add: bus_read_def bus_write_def fd Let_def)
  qed
  have some: "\<exists>r \<in> set (registered reqs).
           claims r ?a
         \<and> (\<forall>r' \<in> set (registered reqs). claims r' ?a \<longrightarrow> baseAddress r \<le> baseAddress r')
         \<and> bus_read ?bus dev_read a st = dev_read (device r) ?a st
         \<and> bus_write ?bus dev_write a v st = dev_write (device r) ?a v st"
    if "\<exists>r \<in> set (registered reqs). claims r ?a"
  proof -
    from that have "find (\<lambda>r. claims r ?a) ?bus \<noteq> None" by (auto simp: find_None_iff set_eq)
    then obtain r where r: "find (\<lambda>r. claims r ?a) ?bus = Some r" by auto
    from find_least [OF srt r]
    have p: "r \<in> set (registered reqs)" "claims r ?a"
      "\<forall>r' \<in> set (registered reqs). claims r' ?a \<longrightarrow> baseAddress r \<le> baseAddress r'"
      by (simp_all add: set_eq word_le_nat_alt)
    have "bus_read ?bus dev_read a st = dev_read (device r) ?a st"
      "bus_write ?bus dev_write a v st = dev_write (device r) ?a v st"
      by (simp_all add: bus_read_def bus_write_def fd r Let_def)
    with p show ?thesis by blast
  qed
  have uniq: "findDevice ?bus ?a = first_registered_claimant reqs ?a"
    if u: "\<forall>r \<in> set (registered reqs). \<forall>r' \<in> set (registered reqs).
          claims r ?a \<and> claims r' ?a \<longrightarrow> r = r'"
  proof (cases "find (\<lambda>r. claims r ?a) (registered reqs)")
    case None
    then have "find (\<lambda>r. claims r ?a) ?bus = None" by (simp add: find_None_iff set_eq)
    with None show ?thesis by (simp add: fd first_registered_claimant_def)
  next
    case (Some r)
    then have r: "r \<in> set (registered reqs)" "claims r ?a"
      by (auto simp: find_Some_iff)
    then have "find (\<lambda>r. claims r ?a) ?bus \<noteq> None" by (auto simp: find_None_iff set_eq)
    then obtain r' where r': "find (\<lambda>r. claims r ?a) ?bus = Some r'" by auto
    then have "r' \<in> set (registered reqs)" "claims r' ?a"
      by (auto simp: find_Some_iff set_eq [symmetric])
    with r u have "r' = r" by blast
    with r' Some show ?thesis by (simp add: fd first_registered_claimant_def)
  qed
  from none some uniq show ?thesis by blast
qed

lemma overlap_demo_bus:
  "mapAll [] overlap_demo =
     [\<lparr> baseAddress = 0x000000, endAddress = 0x0001FF, device = 2 \<rparr>,
      \<lparr> baseAddress = 0x000100, endAddress = 0x0001FF, device = 1 \<rparr>]"
  by (simp add: overlap_demo_def mapDevice_def)

lemma overlap_demo_registered:
  "registered overlap_demo =
     [\<lparr> baseAddress = 0x000100, endAddress = 0x0001FF, device = 1 \<rparr>,
      \<lparr> baseAddress = 0x000000, endAddress = 0x0001FF, device = 2 \<rparr>]"
  by (simp add: overlap_demo_def registered_def region_of_def map_filter_simps)

text \<open>
  Claim C3 as written sends a read to the claimant registered first.  On the
  overlapping bus, device 1 is registered first and claims \<open>$000150\<close>, yet the read is
  answered by device 2, whose region starts lower.
\<close>
theorem bus_read_not_first_registered:
  "first_registered_claimant overlap_demo 0x000150 = Some 1
   \<and> findDevice (mapAll [] overlap_demo) 0x000150 = Some 2
   \<and> fst (bus_read (mapAll [] overlap_demo) id_read 0x000150 ()) = 2
   \<and> fst (id_read 1 0x000150 ()) = 1"
  by (simp add: overlap_demo_bus overlap_demo_registered first_registered_claimant_def
      claims_def bus_read_def id_read_def Let_def)

theorem bus_dispatch_lowest_base_witness:
  "bus_read (mapAll [] overlap_demo) id_read 0x000150 () = (2, ())
   \<and> bus_read (mapAll [] overlap_demo) id_read 0x000300 () = (0xFF, ())
   \<and> findDevice (mapAll [] overlap_demo) 0x000080 = Some 2"
proof -
  let ?r1 = "\<lparr> baseAddress = 0x000100, endAddress = 0x0001FF, device = 1::nat \<rparr>"
  let ?r2 = "\<lparr> baseAddress = 0x000000, endAddress = 0x0001FF, device = 2::nat \<rparr>"
  have m: "(0x000150 :: u32) AND 0xFFFFFF = 0x000150" "(0x000300 :: u32) AND 0xFFFFFF = 0x000300"
    "(0x000080 :: u32) AND 0xFFFFFF = 0x000080"
    by simp_all
  have c150: "claims ?r1 0x150" "claims ?r2 0x150" by (simp_all add: claims_def)
  have c300: "\<not> claims ?r1 0x300" "\<not> claims ?r2 0x300" by (simp_all add: claims_def)
  have c080: "\<not> claims ?r1 0x080" "claims ?r2 0x080" by (simp_all add: claims_def)
  note t150 = bus_dispatch_lowest_base [of overlap_demo "0x000150" id_read "()" "\<lambda>d a v st. st" 0,
      unfolded m overlap_demo_registered]
  note t300 = bus_dispatch_lowest_base [of overlap_demo "0x000300" id_read "()" "\<lambda>d a v st. st" 0,
      unfolded m overlap_demo_registered]
  note t080 = bus_dispatch_lowest_base [of overlap_demo "0x000080" id_read "()" "\<lambda>d a v st. st" 0,
      unfolded m overlap_demo_registered]
  from t150 c150 have a: "bus_read (mapAll [] overlap_demo) id_read 0x000150 () = (2, ())"
    by (auto simp: id_read_def)
  from t300 c300 have b: "bus_read (mapAll [] overlap_demo) id_read 0x000300 () = (0xFF, ())"
    by simp
  from t080 c080 have c: "findDevice (mapAll [] overlap_demo) 0x000080 = Some 2"
    by (simp add: first_registered_claimant_def overlap_demo_registered)
  from a b c show ?thesis by simp
qed


subsection \<open>VRAM fetches\<close>

lemma readVRAM_defined: "vram_ok vram \<Longrightarrow> \<exists>b. readVRAM vram a = Some b"
  by (cases vram) (auto simp: readVRAM_def vram_ok_def RAM_readByte_wf)

lemma readVRAM_zero: "vram = None \<or> a \<ge> 0x80000 \<Longrightarrow> readVRAM vram a = Some 0"
  by (cases vram) (auto simp: readVRAM_def)

lemma readVRAM16_defined: "vram_ok vram \<Longrightarrow> \<exists>w. readVRAM16 vram a = Some w"
proof -
  assume ok: "vram_ok vram"
  from readVRAM_defined [OF ok, of a] obtain lo where lo: "readVRAM vram a = Some lo" ..
  from readVRAM_defined [OF ok, of "a + 1"] obtain hi where hi: "readVRAM vram (a + 1) = Some hi" ..
  show ?thesis by (simp add: readVRAM16_def lo hi)
qed

lemma those_map_length:
  "those (map f xs) = Some ys \<Longrightarrow> length ys = length xs"
  by (induction xs arbitrary: ys) (auto split: option.splits)

lemma load_sprite_defined: "vram_ok vram \<Longrightarrow> \<exists>s. load_sprite vram i = Some s"
proof -
  assume ok: "vram_ok vram"
  let ?o = "SPRITE_OAM + of_nat i * 8"
  from readVRAM16_defined [OF ok] obtain x y where
    "readVRAM16 vram (?o + 0) = Some x" "readVRAM16 vram (?o + 2) = Some y" by meson
  moreover from readVRAM_defined [OF ok] obtain t a f p where
    "readVRAM vram (?o + 4) = Some t" "readVRAM vram (?o + 5) = Some a"
    "readVRAM vram (?o + 6) = Some f" "readVRAM vram (?o + 7) = Some p" by meson
  ultimately show ?thesis by (simp add: load_sprite_def Let_def)
qed

lemma updatePaletteCache_defined:
  assumes ok: "vram_ok vram"
  shows "\<exists>p. updatePaletteCache vram = Some p \<and> length p = 256"
proof -
  have "\<exists>ys. updatePaletteCache vram = Some ys"
    unfolding updatePaletteCache_def
  proof (rule those_map_total)
    fix i
    from readVRAM16_defined [OF ok, of "PALETTE_RAM + of_nat i * 2"]
    show "\<exists>y. map_option rgb565_to_rgba8888 (readVRAM16 vram (PALETTE_RAM + of_nat i * 2)) = Some y"
      by auto
  qed
  then obtain p where p: "updatePaletteCache vram = Some p" ..
  then have "length p = 256" unfolding updatePaletteCache_def by (auto dest: those_map_length)
  with p show ?thesis by blast
qed

lemma updateSpriteCache_defined:
  assumes ok: "vram_ok vram"
  shows "\<exists>sc. updateSpriteCache vram = Some sc \<and> length sc = 512"
proof -
  have "\<exists>ys. updateSpriteCache vram = Some ys"
    unfolding updateSpriteCache_def
    by (rule those_map_total) (rule load_sprite_defined [OF ok])
  then obtain sc where sc: "updateSpriteCache vram = Some sc" ..
  then have "length sc = 512" unfolding updateSpriteCache_def by (auto dest: those_map_length)
  with sc show ?thesis by blast
qed

lemma tile_layer_fetch_defined:
  assumes ok: "vram_ok vram"
  shows "\<exists>c. tile_layer_fetch vram line layerIndex scrollX scrollY control screenX = Some c"
proof -
  have r8: "\<exists>b. readVRAM vram a = Some b" for a by (rule readVRAM_defined [OF ok])
  have m: "\<exists>c. map_option g (readVRAM vram a) = Some c" for g :: "u8 \<Rightarrow> u8" and a
    using r8 [of a] by auto
  obtain e where e: "readVRAM16 vram
      (tilemapBases ! layerIndex +
        of_nat ((((unat line + unat scrollY) mod 512) div (if drop_bit 2 control AND 0x01 \<noteq> 0 then 16 else 8)
                  * (if drop_bit 3 control AND 0x01 \<noteq> 0 then 64 else 32)
                + ((screenX + unat scrollX) mod 512) div (if drop_bit 2 control AND 0x01 \<noteq> 0 then 16 else 8)) * 2))
      = Some e"
    using readVRAM16_defined [OF ok] by blast
  have inner: "\<exists>c. (if A then map_option g1 (readVRAM vram a1)
                     else if B then map_option g2 (readVRAM vram a2)
                     else if C then readVRAM vram a3 else Some 0) = Some c"
    for A B C and g1 g2 :: "u8 \<Rightarrow> u8" and a1 a2 a3
    using m [of g1 a1] m [of g2 a2] r8 [of a3] by auto
  show ?thesis
    unfolding tile_layer_fetch_def Let_def e option.case
    by (rule inner)
qed

lemma sprite_fetch_defined: "vram_ok vram \<Longrightarrow> \<exists>c. sprite_fetch vram spr sy sx = Some c"
  unfolding sprite_fetch_def by (rule readVRAM_defined)

lemma framebuffer_fetch_defined: "vram_ok vram \<Longrightarrow> \<exists>c. framebuffer_fetch vram line x = Some c"
  unfolding framebuffer_fetch_def by (rule readVRAM_defined)

lemma new_RAM_wf: "ram_wf (new_RAM base sz)"
  by (simp add: ram_wf_def new_RAM_def)

text \<open>
  Claim C10.  \<open>readVRAM\<close> never reads outside the RAM's vector: for every flat
  address it returns a byte, and that byte is 0 (not the open-bus \<open>0xFF\<close>) when no
  VRAM is attached or the address is at or above \<open>0x80000\<close>.  Hence \<open>readVRAM16\<close>,
  the palette and sprite cache updates, and the framebuffer, tilemap, tile-data and
  sprite fetches all return a value, for any register values and any VRAM contents.
\<close>
theorem vram_fetches_defined:
  assumes ok: "vram_ok vram"
  shows "(\<exists>b. readVRAM vram a = Some b)
       \<and> (vram = None \<or> a \<ge> 0x80000 \<longrightarrow> readVRAM vram a = Some 0)
       \<and> (\<exists>w. readVRAM16 vram a = Some w)
       \<and> (\<exists>p. updatePaletteCache vram = Some p \<and> length p = 256)
       \<and> (\<exists>sc. updateSpriteCache vram = Some sc \<and> length sc = 512)
       \<and> (\<exists>c. framebuffer_fetch vram line x = Some c)
       \<and> (\<exists>c. tile_layer_fetch vram line layerIndex scrollX scrollY control x = Some c)
       \<and> (\<exists>c. sprite_fetch vram spr spriteY spriteX = Some c)"
  using readVRAM_defined [OF ok, of a] readVRAM_zero [of vram a] readVRAM16_defined [OF ok, of a]
    updatePaletteCache_defined [OF ok] updateSpriteCache_defined [OF ok]
    framebuffer_fetch_defined [OF ok, of line x]
    tile_layer_fetch_defined [OF ok, of line layerIndex scrollX scrollY control x]
    sprite_fetch_defined [OF ok, of spr spriteY spriteX]
  by blast

theorem vram_fetches_defined_witness:
  "readVRAM (Some (new_RAM 0x000000 0x20000)) 0x080000 = Some 0
   \<and> readVRAM None 0x001234 = Some 0
   \<and> (\<exists>b. readVRAM (Some (new_RAM 0x000000 0x20000)) 0x030000 = Some b)
   \<and> (\<exists>p. updatePaletteCache (Some (new_RAM 0x000000 0x20000)) = Some p \<and> length p = 256)"
proof -
  have ok1: "vram_ok (Some (new_RAM 0x000000 0x20000))" by (simp add: vram_ok_def new_RAM_wf)
  have ok2: "vram_ok None" by (simp add: vram_ok_def)
  from vram_fetches_defined [OF ok1, of "0x080000"]
  have a: "readVRAM (Some (new_RAM 0x000000 0x20000)) 0x080000 = Some 0" by simp
  from vram_fetches_defined [OF ok2, of "0x001234"]
  have b: "readVRAM None 0x001234 = Some 0" by simp
  from vram_fetches_defined [OF ok1, of "0x030000"]
  have c: "\<exists>b. readVRAM (Some (new_RAM 0x000000 0x20000)) 0x030000 = Some b"
    and d: "\<exists>p. updatePaletteCache (Some (new_RAM 0x000000 0x20000)) = Some p \<and> length p = 256"
    by blast+
  from a b c d show ?thesis by blast
qed



subsection \<open>Automatic gain control\<close>

lemma getAudioFrame_loud: "getAudioFrame loud_fifos = (5000, 5000)"
  by (simp add: getAudioFrame_def loud_fifos_def cdiv_def clamp_int_def Let_def sum_list_replicate)

lemma mix_sums_loud: "mix_sums new_AudioMixer (5000, 5000) = (40000, 40000)"
  by (simp add: mix_sums_def new_AudioMixer_def AudioMixer_reset_def NUM_CHANNELS_def
      mix_channel_def Let_def numeral_eq_Suc)

lemma mixFrame_loud: "mixFrame new_AudioMixer (5000, 5000) = (32767, 32767)"
  by (simp add: mixFrame_def mix_sums_loud clamp_sample_def Let_def)

lemma sint_32767: "sint (32767 :: i16) = 32767"
  by simp

lemma new_AudioMixer_gain:
  "currentGain new_AudioMixer = 1" "targetGain new_AudioMixer = 1"
  "autoGainControl new_AudioMixer"
  by (simp_all add: new_AudioMixer_def AudioMixer_reset_def)

lemma applyAGC_clipped:
  "applyAGC new_AudioMixer (32767, 32767) = (new_AudioMixer, 32767, 32767)"
proof -
  have t: "trunc_real 32767 = 32767" by (simp add: trunc_real_def)
  have e: "new_AudioMixer\<lparr> targetGain := 1, currentGain := 1 \<rparr> = new_AudioMixer"
    by (simp add: new_AudioMixer_def AudioMixer_reset_def)
  show ?thesis
    by (simp add: applyAGC_def Let_def new_AudioMixer_gain clamp_sample_def t e)
qed

lemma generateSamples_loud:
  "generateSamples new_AudioMixer loud_fifos n = (new_AudioMixer, replicate n (32767, 32767))"
  by (induction n)
     (simp_all add: getAudioFrame_loud mixFrame_loud new_AudioMixer_gain applyAGC_clipped)

text \<open>
  Claim C7 expects the gain to fall when a frame overshoots: with samples of
  \<open>\<plusminus>40000\<close> before the clamp, \<open>current_gain < 1\<close> after one frame and about
  \<open>32767/40000\<close> after a thousand.  In the code \<open>mixFrame\<close> clamps the sums to
  \<open>int16_t\<close> before \<open>applyAGC\<close> looks at them, so the peak it sees is at most 32768.
  With a frame that sums to 40000 on both sides, the gain is exactly 1 after one frame
  and after a thousand, which is further than 0.001 from \<open>32767/40000\<close>.
\<close>
theorem agc_never_sees_the_overshoot:
  "mix_sums new_AudioMixer (getAudioFrame loud_fifos) = (40000, 40000)
   \<and> currentGain (fst (generateSamples new_AudioMixer loud_fifos 1)) = 1
   \<and> currentGain (fst (generateSamples new_AudioMixer loud_fifos 1000)) = 1
   \<and> \<bar>1 - 32767 / 40000\<bar> > (1 / 1000 :: real)"
  unfolding generateSamples_loud getAudioFrame_loud mix_sums_loud
  by (simp add: new_AudioMixer_gain)

text \<open>Whatever the mixer state and the frame, the target gain \<open>applyAGC\<close> sets is
  1, or \<open>32767/32768\<close> when a sample is \<open>-32768\<close>: the clamp has removed any larger
  peak.\<close>

lemma applyAGC_target:
  "targetGain (fst (applyAGC m lr)) =
     (if sint (fst lr) = -32768 \<or> sint (snd lr) = -32768 then 32767 / 32768 else 1)"
proof -
  have r: "- 32768 \<le> sint w \<and> sint w \<le> 32767" for w :: i16
    using sint_ge [of w] sint_lt [of w] by simp
  have b: "(\<bar>real_of_int i\<bar> > 32767) = (i = -32768)" if "- 32768 \<le> i \<and> i \<le> 32767" for i :: int
    using that by (auto simp: abs_if)
  have c: "\<bar>real_of_int i\<bar> \<le> 32768" if "- 32768 \<le> i \<and> i \<le> 32767" for i :: int
    using that by (auto simp: abs_if)
  define l where "l = sint (fst lr)"
  define r' where "r' = sint (snd lr)"
  have lr: "- 32768 \<le> l \<and> l \<le> 32767" "- 32768 \<le> r' \<and> r' \<le> 32767"
    unfolding l_def r'_def by (rule r)+
  have t: "targetGain (fst (applyAGC m lr)) =
        (if max \<bar>real_of_int l\<bar> \<bar>real_of_int r'\<bar> > 32767
         then 32767 / max \<bar>real_of_int l\<bar> \<bar>real_of_int r'\<bar> else 1)"
    unfolding l_def r'_def by (simp add: applyAGC_def Let_def del: of_int_sint)
  show ?thesis
    unfolding t l_def [symmetric] r'_def [symmetric]
    using b [OF lr(1)] b [OF lr(2)] c [OF lr(1)] c [OF lr(2)]
    by (auto simp: max_def)
qed


end
